theory Spec2Isabelle
  imports Complex_Main "HOL-Library.AList"
begin

section \<open>Python built-ins used by the views\<close>

text \<open>
  The views of \<^verbatim>\<open>src/views.py\<close> read query parameters and JSON bodies and convert
  them with Python's \<^verbatim>\<open>int\<close>, \<^verbatim>\<open>float\<close>, \<^verbatim>\<open>str\<close> and \<^verbatim>\<open>str.lower\<close>.
  A Python string is modelled as a list of code points below 256, so the only
  white space beyond ASCII is U+0085 and U+00A0, and the only decimal digits
  are \<^verbatim>\<open>0\<close> to \<^verbatim>\<open>9\<close>.
\<close>

definition py_isspace :: "char \<Rightarrow> bool" where
  "py_isspace c = (c \<in> set [CHR 0x09, CHR 0x0A, CHR 0x0B, CHR 0x0C, CHR 0x0D, CHR 0x20,
                              CHR 0x85, CHR 0xA0])"

definition py_strip :: "string \<Rightarrow> string" where
  "py_strip s = rev (dropWhile py_isspace (rev (dropWhile py_isspace s)))"

definition is_digit :: "char \<Rightarrow> bool" where
  "is_digit c = (c \<in> set ''0123456789'')"

definition digit_val :: "char \<Rightarrow> nat" where
  "digit_val c = of_char c - 48"

definition nat_of_digits :: "string \<Rightarrow> nat" where
  "nat_of_digits ds = foldl (\<lambda>a c. 10 * a + digit_val c) 0 ds"

text \<open>
  An underscore of a numeric literal stands between two digits; the literal is
  read with its underscores removed. \<open>prev\<close> is the character before, if any.
\<close>

fun strip_underscores :: "char option \<Rightarrow> string \<Rightarrow> string option" where
  "strip_underscores prev [] = Some []"
| "strip_underscores prev (c # cs) =
     (if c = CHR ''_'' then
        (case (prev, cs) of
           (Some p, d # _) \<Rightarrow>
             if is_digit p \<and> is_digit d then strip_underscores (Some c) cs else None
         | _ \<Rightarrow> None)
      else map_option ((#) c) (strip_underscores (Some c) cs))"

definition split_sign :: "string \<Rightarrow> bool \<times> string" where
  "split_sign s =
     (case s of
        c # cs \<Rightarrow> if c = CHR ''-'' then (True, cs) else if c = CHR ''+'' then (False, cs)
                  else (False, s)
      | [] \<Rightarrow> (False, s))"

text \<open>
  \<^verbatim>\<open>int(s)\<close> for a string: \<open>None\<close> is \<^verbatim>\<open>ValueError\<close>. The bound of 4300 digits
  is CPython's default \<^verbatim>\<open>sys.int_max_str_digits\<close>.
\<close>

definition py_int :: "string \<Rightarrow> int option" where
  "py_int s =
     (let (neg, body) = split_sign (py_strip s) in
      case strip_underscores None body of
        None \<Rightarrow> None
      | Some ds \<Rightarrow>
          if ds \<noteq> [] \<and> list_all is_digit ds \<and> length ds \<le> 4300
          then Some (if neg then - int (nat_of_digits ds) else int (nat_of_digits ds))
          else None)"

fun digits_of_nat :: "nat \<Rightarrow> string" where
  "digits_of_nat n =
     (if n < 10 then [''0123456789'' ! n]
      else digits_of_nat (n div 10) @ [''0123456789'' ! (n mod 10)])"

declare digits_of_nat.simps [simp del]

text \<open>\<^verbatim>\<open>str(i)\<close> for an integer.\<close>

definition str_int :: "int \<Rightarrow> string" where
  "str_int i = (if i < 0 then CHR ''-'' # digits_of_nat (nat (- i)) else digits_of_nat (nat i))"

definition lower_char :: "char \<Rightarrow> char" where
  "lower_char c =
     (case List.find (\<lambda>p. fst p = c)
             (zip ''ABCDEFGHIJKLMNOPQRSTUVWXYZ'' ''abcdefghijklmnopqrstuvwxyz'') of
        Some p \<Rightarrow> snd p
      | None \<Rightarrow> c)"

text \<open>
  \<^verbatim>\<open>s.lower()\<close> on the ASCII letters. Python also lowers the capital letters of
  Latin-1, to letters that are not ASCII either, so a comparison of the result
  with an ASCII word is not affected.
\<close>

definition py_lower :: "string \<Rightarrow> string" where
  "py_lower s = map lower_char s"

section \<open>Binary64 arithmetic\<close>

text \<open>
  A finite Python float is the rational it denotes. \<open>binary64_round\<close> rounds a
  rational to the nearest number with a 53-bit significand, ties to the even
  significand, with the subnormal spacing below \<open>2 powi (-1022)\<close>; overflow is
  decided by the caller.
\<close>

fun ilog2 :: "nat \<Rightarrow> nat" where
  "ilog2 n = (if n < 2 then 0 else Suc (ilog2 (n div 2)))"

declare ilog2.simps [simp del]

definition floor_log2 :: "rat \<Rightarrow> int" where
  "floor_log2 x =
     (if 1 \<le> x then int (ilog2 (nat \<lfloor>x\<rfloor>))
      else - int (Suc (ilog2 (nat \<lceil>1 / x\<rceil> - 1))))"

definition round_half_even :: "rat \<Rightarrow> int" where
  "round_half_even y =
     (let f = \<lfloor>y\<rfloor>; d = y - of_int f in
      if d < 1 / 2 then f else if 1 / 2 < d then f + 1
      else if even f then f else f + 1)"

definition binary64_round :: "rat \<Rightarrow> rat" where
  "binary64_round x =
     (if x = 0 then 0
      else let e = max (floor_log2 \<bar>x\<bar>) (- 1022); u = 2 powi (e - 52) in
           sgn x * of_int (round_half_even (\<bar>x\<bar> / u)) * u)"

datatype pyfloat = FNan | FPosInf | FNegInf | FNegZero | FFin rat

text \<open>The float nearest to \<open>x\<close>, with the sign \<open>neg\<close> read from the literal.\<close>

definition to_binary64 :: "bool \<Rightarrow> rat \<Rightarrow> pyfloat" where
  "to_binary64 neg x =
     (let r = binary64_round \<bar>x\<bar> in
      if r = 0 then (if neg then FNegZero else FFin 0)
      else if 2 ^ 1024 \<le> r then (if neg then FNegInf else FPosInf)
      else FFin (if neg then - r else r))"

text \<open>
  A decimal literal without sign and underscores: digits, an optional point
  and digits, with a digit on at least one side, and an optional exponent.
\<close>

definition parse_exponent :: "string \<Rightarrow> int option" where
  "parse_exponent s =
     (case s of
        [] \<Rightarrow> Some 0
      | c # cs \<Rightarrow>
          if c = CHR ''e'' \<or> c = CHR ''E'' then
            (let (neg, ds) = split_sign cs in
             if ds \<noteq> [] \<and> list_all is_digit ds
             then Some (if neg then - int (nat_of_digits ds) else int (nat_of_digits ds))
             else None)
          else None)"

definition parse_decimal :: "string \<Rightarrow> rat option" where
  "parse_decimal s =
     (let ip = takeWhile is_digit s; r1 = dropWhile is_digit s;
          fp = (case r1 of c # cs \<Rightarrow> if c = CHR ''.'' then takeWhile is_digit cs else []
                | [] \<Rightarrow> []);
          r2 = (case r1 of c # cs \<Rightarrow> if c = CHR ''.'' then dropWhile is_digit cs else r1
                | [] \<Rightarrow> [])
      in if ip = [] \<and> fp = [] then None
         else map_option
                (\<lambda>e. of_nat (nat_of_digits (ip @ fp)) * 10 powi (e - int (length fp)))
                (parse_exponent r2))"

text \<open>\<^verbatim>\<open>float(s)\<close> for a string: \<open>None\<close> is \<^verbatim>\<open>ValueError\<close>.\<close>

definition py_float :: "string \<Rightarrow> pyfloat option" where
  "py_float s =
     (case strip_underscores None (py_strip s) of
        None \<Rightarrow> None
      | Some u \<Rightarrow>
          (let (neg, body) = split_sign u; w = py_lower body in
           if w = ''inf'' \<or> w = ''infinity'' then Some (if neg then FNegInf else FPosInf)
           else if w = ''nan'' then Some FNan
           else map_option (to_binary64 neg) (parse_decimal body)))"

section \<open>JSON values and the stored table\<close>

text \<open>
  A parsed JSON value, as \<^verbatim>\<open>request.data\<close> holds it. A Python \<^verbatim>\<open>dict\<close> keeps its
  keys in insertion order, so it is an association list; \<open>AList.update\<close> is the
  assignment \<^verbatim>\<open>d[k] = v\<close>.
\<close>

datatype json =
    JNull
  | JBool bool
  | JInt int
  | JFloat pyfloat
  | JStr string
  | JArr "json list"
  | JObj "(string \<times> json) list"

type_synonym row = "(string \<times> json) list"
type_synonym overlay = "(string \<times> row) list"
type_synonym schema = "(string \<times> string) list"

text \<open>The fields of \<^verbatim>\<open>DataTable\<close> that the views read and write.\<close>

record DataTable =
  tbl_project :: nat
  tbl_source_file :: nat
  schema_json :: schema
  num_rows :: int
  sample_json :: "row list"
  full_data_json :: "row list option"
  edited_data_json :: overlay

text \<open>\<^verbatim>\<open>d.update(other)\<close>: every key of \<open>other\<close> is assigned in \<open>d\<close>.\<close>

definition dict_update :: "('k \<times> 'v) list \<Rightarrow> ('k \<times> 'v) list \<Rightarrow> ('k \<times> 'v) list" where
  "dict_update d other = fold (\<lambda>kv m. AList.update (fst kv) (snd kv) m) other d"

text \<open>
  Modelled from the spec: \<^verbatim>\<open>DataTable.get_schema\<close> of \<^verbatim>\<open>models.py\<close>, which is
  not among the sources; it returns the stored schema.
\<close>

definition get_schema :: "DataTable \<Rightarrow> schema" where
  "get_schema dt = schema_json dt"

text \<open>
  Modelled from the spec: \<^verbatim>\<open>DataTable.get_edited_data\<close> of \<^verbatim>\<open>models.py\<close>, which
  is not among the sources; it returns the edit overlay, empty at first.
\<close>

definition get_edited_data :: "DataTable \<Rightarrow> overlay" where
  "get_edited_data dt = edited_data_json dt"

text \<open>
  Modelled from the spec: \<^verbatim>\<open>DataTable.get_data_with_edits\<close> of \<^verbatim>\<open>models.py\<close>
  (the spec's \<^verbatim>\<open>materialize\<close>), which is not among the sources. Row \<open>i\<close> is
  \<^verbatim>\<open>fullRows[i]\<close> with every key of the overlay entry of \<open>i\<close> overridden by the
  overlay's value; the result is absent when \<^verbatim>\<open>fullRows\<close> is.
\<close>

definition merge_row :: "overlay \<Rightarrow> nat \<Rightarrow> row \<Rightarrow> row" where
  "merge_row ov i r =
     (case map_of ov (str_int (int i)) of None \<Rightarrow> r | Some e \<Rightarrow> dict_update r e)"

definition get_data_with_edits :: "DataTable \<Rightarrow> row list option" where
  "get_data_with_edits dt =
     map_option (\<lambda>rows. map (\<lambda>i. merge_row (edited_data_json dt) i (rows ! i)) [0..<length rows])
       (full_data_json dt)"

section \<open>DataGridView.patch: applying edits\<close>

text \<open>
  One constructor for each message appended to \<^verbatim>\<open>validation_errors\<close>, holding
  the values that the message formats:
  \<^verbatim>\<open>Invalid row index: {row_index_str}\<close>,
  \<^verbatim>\<open>Row index {row_index} out of range.\<close>,
  \<^verbatim>\<open>Row {row_index}: edits must be an object.\<close>,
  \<^verbatim>\<open>Row {row_index}: unknown column '{column_name}'.\<close> and
  \<^verbatim>\<open>Row {row_index}, column '{column_name}': invalid value '{new_value}' for type '{expected_type}'.\<close>
\<close>

datatype validation_error =
    InvalidRowIndex string
  | RowIndexOutOfRange int
  | RowEditsNotObject int
  | UnknownColumn int string
  | InvalidValue int string json string

text \<open>
  \<^verbatim>\<open>str(v)\<close>. The text of a float, a list or a dict is given by \<open>rep\<close>, a
  parameter of the model.
\<close>

fun py_str :: "(json \<Rightarrow> string) \<Rightarrow> json \<Rightarrow> string" where
  "py_str rep JNull = ''None''"
| "py_str rep (JBool b) = (if b then ''True'' else ''False'')"
| "py_str rep (JInt i) = str_int i"
| "py_str rep (JStr s) = s"
| "py_str rep v = rep v"

text \<open>\<^verbatim>\<open>isinstance(v, (int, float))\<close>: \<^verbatim>\<open>bool\<close> is a subclass of \<^verbatim>\<open>int\<close>.\<close>

fun is_int_or_float :: "json \<Rightarrow> bool" where
  "is_int_or_float (JBool b) = True"
| "is_int_or_float (JInt i) = True"
| "is_int_or_float (JFloat f) = True"
| "is_int_or_float v = False"

text \<open>
  The body of the \<^verbatim>\<open>try\<close> of lines 577 to 591, for a value that is not
  \<^verbatim>\<open>None\<close>: \<open>None\<close> is the \<^verbatim>\<open>ValueError\<close> that the \<^verbatim>\<open>except\<close> catches.
\<close>

definition coerce :: "(json \<Rightarrow> string) \<Rightarrow> string \<Rightarrow> json \<Rightarrow> json option" where
  "coerce rep expected_type new_value =
     (if expected_type = ''number'' then
        (case new_value of
           JStr s \<Rightarrow> map_option JFloat (py_float s)
         | _ \<Rightarrow> if is_int_or_float new_value then Some new_value else None)
      else if expected_type = ''boolean'' then
        (case new_value of
           JStr s \<Rightarrow> Some (JBool (py_lower s \<in> set [''true'', ''1'', ''yes'']))
         | JBool b \<Rightarrow> Some new_value
         | _ \<Rightarrow> None)
      else if expected_type = ''string'' then Some (JStr (py_str rep new_value))
      else Some new_value)"

text \<open>The loop over \<^verbatim>\<open>row_edits.items()\<close>, lines 568 to 598.\<close>

fun validate_cells ::
  "(json \<Rightarrow> string) \<Rightarrow> schema \<Rightarrow> int \<Rightarrow> (string \<times> json) list \<Rightarrow> row \<Rightarrow>
   validation_error list \<Rightarrow> row \<times> validation_error list" where
  "validate_cells rep sch row_index [] validated_row_edits validation_errors =
     (validated_row_edits, validation_errors)"
| "validate_cells rep sch row_index ((column_name, new_value) # rest) validated_row_edits
       validation_errors =
     (case map_of sch column_name of
        None \<Rightarrow>
          validate_cells rep sch row_index rest validated_row_edits
            (validation_errors @ [UnknownColumn row_index column_name])
      | Some expected_type \<Rightarrow>
          if new_value \<noteq> JNull then
            (case coerce rep expected_type new_value of
               None \<Rightarrow>
                 validate_cells rep sch row_index rest validated_row_edits
                   (validation_errors @
                    [InvalidValue row_index column_name new_value expected_type])
             | Some v \<Rightarrow>
                 validate_cells rep sch row_index rest
                   (AList.update column_name v validated_row_edits) validation_errors)
          else
            validate_cells rep sch row_index rest
              (AList.update column_name new_value validated_row_edits) validation_errors)"

text \<open>The loop over \<^verbatim>\<open>edits.items()\<close>, lines 551 to 601; \<open>n\<close> is \<^verbatim>\<open>len(data)\<close>.\<close>

fun validate_rows ::
  "(json \<Rightarrow> string) \<Rightarrow> schema \<Rightarrow> nat \<Rightarrow> (string \<times> json) list \<Rightarrow> overlay \<Rightarrow>
   validation_error list \<Rightarrow> overlay \<times> validation_error list" where
  "validate_rows rep sch n [] validated_edits validation_errors =
     (validated_edits, validation_errors)"
| "validate_rows rep sch n ((row_index_str, row_edits) # rest) validated_edits
       validation_errors =
     (case py_int row_index_str of
        None \<Rightarrow>
          validate_rows rep sch n rest validated_edits
            (validation_errors @ [InvalidRowIndex row_index_str])
      | Some row_index \<Rightarrow>
          if \<not> (0 \<le> row_index \<and> row_index < int n) then
            validate_rows rep sch n rest validated_edits
              (validation_errors @ [RowIndexOutOfRange row_index])
          else
            (case row_edits of
               JObj cells \<Rightarrow>
                 (let r = validate_cells rep sch row_index cells [] validation_errors in
                  validate_rows rep sch n rest
                    (if fst r \<noteq> [] then AList.update (str_int row_index) (fst r) validated_edits
                     else validated_edits)
                    (snd r))
             | _ \<Rightarrow>
                 validate_rows rep sch n rest validated_edits
                   (validation_errors @ [RowEditsNotObject row_index])))"

datatype patch_response =
    EditsNotObject
  | FullDataNotAvailable
  | ValidationFailed "validation_error list"
  | Applied nat overlay
  | SaveFailed

text \<open>
  \<^verbatim>\<open>DataGridView.patch\<close> for the table found for the project, lines 530 to 628.
  \<open>edits\<close> is \<^verbatim>\<open>request.data.get("edits", {})\<close>; \<open>save_ok\<close> tells whether
  \<^verbatim>\<open>data_table.save()\<close> returns or raises. The result is the response and the
  stored table.
\<close>

definition patch ::
  "(json \<Rightarrow> string) \<Rightarrow> bool \<Rightarrow> DataTable \<Rightarrow> json \<Rightarrow> patch_response \<times> DataTable" where
  "patch rep save_ok data_table edits =
     (case edits of
        JObj rows \<Rightarrow>
          (case get_data_with_edits data_table of
             None \<Rightarrow> (FullDataNotAvailable, data_table)
           | Some data \<Rightarrow>
               (let r = validate_rows rep (get_schema data_table) (length data) rows [] [] in
                if snd r \<noteq> [] then (ValidationFailed (snd r), data_table)
                else if save_ok then
                  (Applied (length (fst r)) (fst r),
                   data_table\<lparr>edited_data_json :=
                     dict_update (get_edited_data data_table) (fst r)\<rparr>)
                else (SaveFailed, data_table)))
      | _ \<Rightarrow> (EditsNotObject, data_table))"

section \<open>DataGridView.get: pagination\<close>

text \<open>
  \<^verbatim>\<open>xs[i:j]\<close>: a negative bound counts from the end, and both bounds are
  clamped to the list.
\<close>

definition slice_bound :: "nat \<Rightarrow> int \<Rightarrow> nat" where
  "slice_bound n k = (if k < 0 then nat (max (k + int n) 0) else min (nat k) n)"

definition py_slice :: "'a list \<Rightarrow> int \<Rightarrow> int \<Rightarrow> 'a list" where
  "py_slice xs i j =
     (let lo = slice_bound (length xs) i; hi = slice_bound (length xs) j
      in take (hi - lo) (drop lo xs))"

datatype get_error =
    BadQueryParam
  | FullDataUnavailable
  | PageOutOfRange
  | ZeroDivisionError

record page_response =
  pg_data :: "row list"
  pg_schema :: schema
  pg_page :: int
  pg_page_size :: int
  pg_total_rows :: int
  pg_total_pages :: int
  pg_has_next :: bool
  pg_has_previous :: bool

text \<open>
  Lines 481 to 506: the page of \<open>data\<close>. The division of \<^verbatim>\<open>total_pages\<close> raises
  for a page size of zero; \<open>div\<close> on \<open>int\<close> rounds down, as \<^verbatim>\<open>//\<close> does.
\<close>

definition paginate :: "schema \<Rightarrow> row list \<Rightarrow> int \<Rightarrow> int \<Rightarrow> get_error + page_response" where
  "paginate sch data page page_size =
     (let total_rows = int (length data);
          start_index = (page - 1) * page_size;
          end_index = min (start_index + page_size) total_rows
      in if start_index \<ge> total_rows then Inl PageOutOfRange
         else if page_size = 0 then Inl ZeroDivisionError
         else Inr \<lparr>pg_data = py_slice data start_index end_index,
                   pg_schema = sch,
                   pg_page = page,
                   pg_page_size = page_size,
                   pg_total_rows = total_rows,
                   pg_total_pages = (total_rows + page_size - 1) div page_size,
                   pg_has_next = (end_index < total_rows),
                   pg_has_previous = (page > 1)\<rparr>)"

text \<open>
  \<^verbatim>\<open>int(request.query_params.get(name, default))\<close>: \<open>None\<close> is the
  \<^verbatim>\<open>ValueError\<close> of \<^verbatim>\<open>int\<close>.
\<close>

definition query_int :: "string option \<Rightarrow> int \<Rightarrow> int option" where
  "query_int param dflt = (case param of None \<Rightarrow> Some dflt | Some s \<Rightarrow> py_int s)"

text \<open>
  \<^verbatim>\<open>DataGridView.get\<close> for the table found for the project, lines 469 to 506.
  Nothing catches the \<^verbatim>\<open>ValueError\<close> of a parameter that is not an integer.
\<close>

definition get :: "DataTable \<Rightarrow> string option \<Rightarrow> string option \<Rightarrow> get_error + page_response" where
  "get data_table page_param page_size_param =
     (case query_int page_param 1 of
        None \<Rightarrow> Inl BadQueryParam
      | Some page \<Rightarrow>
          (case query_int page_size_param 100 of
             None \<Rightarrow> Inl BadQueryParam
           | Some page_size \<Rightarrow>
               (case get_data_with_edits data_table of
                  None \<Rightarrow> Inl FullDataUnavailable
                | Some data \<Rightarrow> paginate (get_schema data_table) data page page_size)))"

section \<open>DataPreviewView.get: the sampled preview\<close>

text \<open>Lines 662 to 666: the limit, 1000 when the parameter is absent or no integer.\<close>

definition preview_limit :: "string option \<Rightarrow> int" where
  "preview_limit param =
     (case query_int param 1000 of
        Some limit \<Rightarrow> max 1 (min limit 10000)
      | None \<Rightarrow> 1000)"

text \<open>
  \<^verbatim>\<open>total_rows / limit\<close> is the quotient of two integers rounded once, and
  \<^verbatim>\<open>i * step\<close> the product rounded once; \<^verbatim>\<open>int(x)\<close> drops the fraction. The
  length of a list is below \<open>2 ^ 63\<close>, so no operation overflows.
\<close>

definition sample_step :: "nat \<Rightarrow> int \<Rightarrow> rat" where
  "sample_step total_rows limit = binary64_round (of_nat total_rows / of_int limit)"

definition py_trunc :: "rat \<Rightarrow> int" where
  "py_trunc x = (if 0 \<le> x then \<lfloor>x\<rfloor> else \<lceil>x\<rceil>)"

definition sample_index :: "rat \<Rightarrow> nat \<Rightarrow> int" where
  "sample_index step i = py_trunc (binary64_round (of_nat i * step))"

text \<open>The loop of lines 683 to 688, from \<open>i\<close> up to \<open>limit\<close>.\<close>

definition sample_indices :: "nat \<Rightarrow> int \<Rightarrow> nat list" where
  "sample_indices total_rows limit =
     map (\<lambda>i. nat (sample_index (sample_step total_rows limit) i))
       (filter (\<lambda>i. sample_index (sample_step total_rows limit) i < int total_rows)
          [0..<nat limit])"

record preview_response =
  pv_data :: "row list"
  pv_schema :: schema
  pv_total_rows :: nat
  pv_preview_rows :: nat
  pv_is_sampled :: bool

text \<open>Lines 676 to 698, for the clamped limit.\<close>

definition preview_rows :: "schema \<Rightarrow> row list \<Rightarrow> int \<Rightarrow> preview_response" where
  "preview_rows sch data limit =
     (let total_rows = length data;
          is_sampled = (int total_rows > limit);
          preview_data = (if is_sampled
                          then map (\<lambda>index. data ! index) (sample_indices total_rows limit)
                          else data)
      in \<lparr>pv_data = preview_data, pv_schema = sch, pv_total_rows = total_rows,
          pv_preview_rows = length preview_data, pv_is_sampled = is_sampled\<rparr>)"

text \<open>\<^verbatim>\<open>DataPreviewView.get\<close> for the table found for the project.\<close>

definition preview :: "DataTable \<Rightarrow> string option \<Rightarrow> get_error + preview_response" where
  "preview data_table limit_param =
     (case get_data_with_edits data_table of
        None \<Rightarrow> Inl FullDataUnavailable
      | Some data \<Rightarrow> Inr (preview_rows (get_schema data_table) data (preview_limit limit_param)))"

section \<open>DataIngestionView.post: ingestion\<close>

text \<open>
  A cell of the parsed data frame, by the branch of lines 404 to 412 that it
  takes: a missing value (\<^verbatim>\<open>pd.isna\<close>), a \<^verbatim>\<open>pd.Timestamp\<close> with its ISO
  text, a value with an \<^verbatim>\<open>item\<close> method and the result of calling it (\<open>None\<close>
  when it raises \<^verbatim>\<open>ValueError\<close> or \<^verbatim>\<open>AttributeError\<close>), or any other value.
\<close>

datatype raw_cell =
    RawMissing
  | RawTimestamp string
  | RawBoxed "json option"
  | RawPlain json

fun sanitize_value :: "raw_cell \<Rightarrow> json" where
  "sanitize_value RawMissing = JNull"
| "sanitize_value (RawTimestamp isoformat) = JStr isoformat"
| "sanitize_value (RawBoxed (Some v)) = v"
| "sanitize_value (RawBoxed None) = JNull"
| "sanitize_value (RawPlain v) = v"

text \<open>
  What reading the stored file gives in one request: an exception somewhere
  in the \<^verbatim>\<open>try\<close>, no frame (the extension is neither \<^verbatim>\<open>.csv\<close> nor \<^verbatim>\<open>.xlsx\<close>),
  or the records of the frame.
\<close>

datatype frame_read =
    ReadRaised
  | NoFrame
  | Frame "(string \<times> raw_cell) list list"

text \<open>The \<^verbatim>\<open>try\<close> of lines 384 to 416, and of lines 333 to 357.\<close>

definition load_full_data :: "frame_read \<Rightarrow> row list option" where
  "load_full_data fr =
     (case fr of
        ReadRaised \<Rightarrow> None
      | NoFrame \<Rightarrow> None
      | Frame records \<Rightarrow>
          Some (map (\<lambda>record. map (\<lambda>kv. (fst kv, sanitize_value (snd kv))) record) records))"

record parsed_file =
  pf_schema :: schema
  pf_num_rows :: int
  pf_sample_data :: "row list"

datatype parse_result =
    ParseValueError
  | ParseOtherError
  | Parsed parsed_file

text \<open>
  What the collaborators of one request do: \<^verbatim>\<open>parse_file\<close>, the read of the
  stored file, \<^verbatim>\<open>DataTable.objects.create\<close> and \<^verbatim>\<open>existing_table.save\<close>.
\<close>

record ingest_env =
  env_parse :: parse_result
  env_read :: frame_read
  env_create_ok :: bool
  env_save_ok :: bool

datatype ingest_response =
    ParseRejected
  | ParseFailed
  | CreateFailed
  | Existing DataTable
  | Created DataTable

definition find_table :: "DataTable list \<Rightarrow> nat \<Rightarrow> nat \<Rightarrow> DataTable option" where
  "find_table db project source_file =
     List.find (\<lambda>t. tbl_project t = project \<and> tbl_source_file t = source_file) db"

text \<open>\<^verbatim>\<open>existing_table.save()\<close>: the row that \<open>find_table\<close> returned is replaced.\<close>

fun save_table :: "DataTable list \<Rightarrow> nat \<Rightarrow> nat \<Rightarrow> DataTable \<Rightarrow> DataTable list" where
  "save_table [] project source_file t' = []"
| "save_table (t # db) project source_file t' =
     (if tbl_project t = project \<and> tbl_source_file t = source_file then t' # db
      else t # save_table db project source_file t')"

text \<open>
  \<^verbatim>\<open>DataIngestionView.post\<close> for the project and the uploaded file found, lines
  325 to 436, on the stored tables \<open>db\<close>. The result is the response and the
  stored tables.
\<close>

definition ingest ::
  "ingest_env \<Rightarrow> DataTable list \<Rightarrow> nat \<Rightarrow> nat \<Rightarrow> ingest_response \<times> DataTable list" where
  "ingest env db project source_file =
     (case find_table db project source_file of
        Some existing_table \<Rightarrow>
          if full_data_json existing_table = None \<and> num_rows existing_table \<le> 10000 then
            (case load_full_data (env_read env) of
               None \<Rightarrow> (Existing existing_table, db)
             | Some full_data \<Rightarrow>
                 (let t' = existing_table\<lparr>full_data_json := Some full_data\<rparr> in
                  if env_save_ok env then (Existing t', save_table db project source_file t')
                  else (Existing t', db)))
          else (Existing existing_table, db)
      | None \<Rightarrow>
          (case env_parse env of
             ParseValueError \<Rightarrow> (ParseRejected, db)
           | ParseOtherError \<Rightarrow> (ParseFailed, db)
           | Parsed parsed_data \<Rightarrow>
               (let full_data = (if pf_num_rows parsed_data \<le> 10000
                                 then load_full_data (env_read env) else None);
                    data_table = \<lparr>tbl_project = project, tbl_source_file = source_file,
                                   schema_json = pf_schema parsed_data,
                                   num_rows = pf_num_rows parsed_data,
                                   sample_json = pf_sample_data parsed_data,
                                   full_data_json = full_data,
                                   edited_data_json = []\<rparr>
                in if env_create_ok env then (Created data_table, db @ [data_table])
                   else (CreateFailed, db))))"

text \<open>The tables stored for one uploaded file.\<close>

definition tables_of :: "DataTable list \<Rightarrow> nat \<Rightarrow> nat \<Rightarrow> DataTable list" where
  "tables_of db project source_file =
     filter (\<lambda>t. tbl_project t = project \<and> tbl_source_file t = source_file) db"

text \<open>The rows of a page response; an error carries none.\<close>

definition page_rows :: "get_error + page_response \<Rightarrow> row list" where
  "page_rows r = (case r of Inl e \<Rightarrow> [] | Inr p \<Rightarrow> pg_data p)"

section \<open>Example tables\<close>

text \<open>
  The table of the specification's scenario, two rows of one number column,
  after the edit of row 0 to 31.
\<close>

definition age_table :: DataTable where
  "age_table =
     \<lparr>tbl_project = 1, tbl_source_file = 1, schema_json = [(''age'', ''number'')],
      num_rows = 2, sample_json = [],
      full_data_json = Some [[(''age'', JInt 30)], [(''age'', JInt 25)]],
      edited_data_json = [(''0'', [(''age'', JFloat (FFin 31))])]\<rparr>"

text \<open>A table of one row with two number columns and no edit yet.\<close>

definition two_column_table :: DataTable where
  "two_column_table =
     \<lparr>tbl_project = 1, tbl_source_file = 1,
      schema_json = [(''a'', ''number''), (''b'', ''number'')],
      num_rows = 1, sample_json = [],
      full_data_json = Some [[(''a'', JInt 1), (''b'', JInt 2)]],
      edited_data_json = []\<rparr>"

section \<open>The invariants of the specification\<close>



section \<open>Example requests of an ingestion\<close>

text \<open>
  A parsed file of one row; a request in which reading the stored file raises,
  and a request in which it gives the one record; the table that the first
  request creates.
\<close>

definition csv_parse :: parsed_file where
  "csv_parse = \<lparr>pf_schema = [(''age'', ''number'')], pf_num_rows = 1, pf_sample_data = [[(''age'', JInt 30)]]\<rparr>"

definition env_read_fails :: ingest_env where
  "env_read_fails = \<lparr>env_parse = Parsed csv_parse, env_read = ReadRaised, env_create_ok = True, env_save_ok = True\<rparr>"

definition env_read_works :: ingest_env where
  "env_read_works = \<lparr>env_parse = Parsed csv_parse, env_read = Frame [[(''age'', RawBoxed (Some (JInt 30)))]], env_create_ok = True, env_save_ok = True\<rparr>"

definition sample_only_table :: DataTable where
  "sample_only_table = \<lparr>tbl_project = 1, tbl_source_file = 1, schema_json = [(''age'', ''number'')],
      num_rows = 1, sample_json = [[(''age'', JInt 30)]], full_data_json = None, edited_data_json = []\<rparr>"

text \<open>
  The examples send no float, list or dict to a string column, so the text of
  such a value is never asked for.
\<close>

definition no_text :: "json \<Rightarrow> string" where
  "no_text v = []"

section \<open>Invalid cells, in the specification's words\<close>

text \<open>
  Section 4.4 of the specification: null is always accepted; for \<open>number\<close> a
  string that is not numeric and a value of an incompatible type are rejected;
  for \<open>boolean\<close> a value that is neither a boolean nor a string is rejected;
  \<open>string\<close> and \<open>date\<close> accept every value.
\<close>

fun type_incompatible :: "string \<Rightarrow> json \<Rightarrow> bool" where
  "type_incompatible t JNull = False"
| "type_incompatible t (JStr s) = (t = ''number'' \<and> py_float s = None)"
| "type_incompatible t (JBool b) = False"
| "type_incompatible t (JInt i) = (t = ''boolean'')"
| "type_incompatible t (JFloat f) = (t = ''boolean'')"
| "type_incompatible t v = (t = ''number'' \<or> t = ''boolean'')"

text \<open>A cell is invalid when its column is unknown or its value incompatible.\<close>

definition invalid_cell :: "schema \<Rightarrow> string \<times> json \<Rightarrow> bool" where
  "invalid_cell sch cv =
     (case map_of sch (fst cv) of None \<Rightarrow> True | Some t \<Rightarrow> type_incompatible t (snd cv))"

text \<open>
  A row of a request has an invalid cell when its index does not parse or is
  out of range, or when one of its cells is invalid.
\<close>

definition invalid_row :: "schema \<Rightarrow> nat \<Rightarrow> string \<times> json \<Rightarrow> bool" where
  "invalid_row sch n kr =
     (case py_int (fst kr) of
        None \<Rightarrow> True
      | Some i \<Rightarrow>
          i < 0 \<or> int n \<le> i \<or>
          (case snd kr of JObj cells \<Rightarrow> list_ex (invalid_cell sch) cells | _ \<Rightarrow> False))"

definition has_invalid_cell :: "schema \<Rightarrow> nat \<Rightarrow> (string \<times> json) list \<Rightarrow> bool" where
  "has_invalid_cell sch n rows = list_ex (invalid_row sch n) rows"

section \<open>The sampled indices, in the specification's words\<close>

text \<open>
  Section 4.6 of the specification: with the real-valued step
  \<open>len(rows) / limit\<close>, the rows at \<open>floor(i * step)\<close> for \<open>i\<close> from 0 up to
  \<open>limit\<close>, those at or beyond \<open>len(rows)\<close> skipped. The quotient and the
  product are exact here.
\<close>

definition spec_sample_indices :: "nat \<Rightarrow> int \<Rightarrow> nat list" where
  "spec_sample_indices total_rows limit =
     map (\<lambda>i. nat \<lfloor>of_nat i * (of_nat total_rows / of_int limit :: rat)\<rfloor>)
       (filter (\<lambda>i. \<lfloor>of_nat i * (of_nat total_rows / of_int limit :: rat)\<rfloor> < int total_rows)
          [0..<nat limit])"

text \<open>\<open>n\<close> rows of one column that holds the index of the row.\<close>

definition numbered_rows :: "nat \<Rightarrow> row list" where
  "numbered_rows n = map (\<lambda>k. [(''id'', JInt (int k))]) [0..<n]"

section \<open>Pagination\<close>

lemma py_slice_take_drop:
  "0 \<le> i \<Longrightarrow> i \<le> j \<Longrightarrow> py_slice xs i j = take (nat j - nat i) (drop (nat i) xs)"
  by (cases "nat j \<le> length xs"; cases "nat i \<le> length xs")
     (auto simp: py_slice_def slice_bound_def min_def Let_def)

text \<open>
  C4, as the specification states it: the first page of an empty row sequence
  is an empty slice. The code answers it with the out-of-range error, since
  \<^verbatim>\<open>start_index >= total_rows\<close> is \<^verbatim>\<open>0 >= 0\<close>.
\<close>

theorem page_one_of_empty_rows: "paginate [] [] 1 1 = Inl PageOutOfRange"
  by (simp add: paginate_def)

text \<open>
  C4, amended: for every row sequence, page at least 1 and page size at least
  1, the page request fails as out of range exactly when
  \<open>(page - 1) * page_size\<close> is at least the number of rows, the first page of
  an empty row sequence included.
\<close>

theorem paginate_out_of_range_iff:
  "1 \<le> page \<Longrightarrow> 1 \<le> page_size \<Longrightarrow>
   (paginate sch data page page_size = Inl PageOutOfRange) =
   (int (length data) \<le> (page - 1) * page_size)"
  by (simp add: paginate_def Let_def)

theorem paginate_out_of_range_iff_witness:
  "(1::int) \<le> 3 \<and> (1::int) \<le> 1 \<and>
   paginate [] [[(''age'', JInt 31)], [(''age'', JInt 25)]] 3 1 = Inl PageOutOfRange \<and>
   paginate [] [[(''age'', JInt 31)], [(''age'', JInt 25)]] 2 1 \<noteq> Inl PageOutOfRange"
  using paginate_out_of_range_iff [of 3 1 "[]" "[[(''age'', JInt 31)], [(''age'', JInt 25)]]"]
    paginate_out_of_range_iff [of 2 1 "[]" "[[(''age'', JInt 31)], [(''age'', JInt 25)]]"]
  by simp

lemma ceiling_div_pages:
  assumes "1 \<le> (ps::int)"
  shows "(n + ps - 1) div ps = \<lceil>(of_int n :: rat) / of_int ps\<rceil>"
proof -
  define q where "q = (n - 1) div ps"
  define r where "r = (n - 1) mod ps"
  have r: "0 \<le> r" "r < ps" using assms by (simp_all add: r_def)
  have n: "n - 1 = ps * q + r" by (simp add: q_def r_def)
  have "n + ps - 1 = ps * (q + 1) + r" using n by (simp add: algebra_simps)
  then have a: "(n + ps - 1) div ps = q + 1"
    using r by (rule int_div_pos_eq)
  have "- n = ps * (- q - 1) + (ps - 1 - r)" using n by (simp add: algebra_simps)
  moreover have "0 \<le> ps - 1 - r" "ps - 1 - r < ps" using r by auto
  ultimately have b: "(- n) div ps = - q - 1" by (rule int_div_pos_eq)
  have "- (of_int n / of_int ps :: rat) = of_int (- n) / of_int ps" by simp
  then have "\<lceil>(of_int n :: rat) / of_int ps\<rceil> = - ((- n) div ps)"
    unfolding ceiling_def by (simp only: floor_divide_of_int_eq)
  with a b show ?thesis by simp
qed

lemma concat_chunks:
  "concat (map (\<lambda>p. take m (drop (p * m) xs)) [0..<k]) = take (k * m) xs"
proof (induction k)
  case 0
  show ?case by simp
next
  case (Suc k)
  have "take (k * m) xs @ take m (drop (k * m) xs) = take (k * m + m) xs"
    by (simp add: take_add)
  with Suc show ?case by (simp add: add.commute)
qed

lemma paginate_in_range:
  assumes "1 \<le> page_size" "1 \<le> page" "(page - 1) * page_size < int (length data)"
  shows "paginate sch data page page_size =
     Inr \<lparr>pg_data = take (nat page_size) (drop (nat ((page - 1) * page_size)) data),
          pg_schema = sch, pg_page = page, pg_page_size = page_size,
          pg_total_rows = int (length data),
          pg_total_pages = (int (length data) + page_size - 1) div page_size,
          pg_has_next = (min ((page - 1) * page_size + page_size) (int (length data)) < int (length data)),
          pg_has_previous = (1 < page)\<rparr>"
proof -
  let ?s = "(page - 1) * page_size"
  let ?e = "min (?s + page_size) (int (length data))"
  have s0: "0 \<le> ?s" using assms by simp
  have se: "?s \<le> ?e" using assms by simp
  have "py_slice data ?s ?e = take (nat ?e - nat ?s) (drop (nat ?s) data)"
    by (rule py_slice_take_drop [OF s0 se])
  also have "\<dots> = take (nat page_size) (drop (nat ?s) data)"
  proof (cases "?s + page_size \<le> int (length data)")
    case True
    then have "nat ?e - nat ?s = nat page_size" using s0 assms(1) by (simp add: min_def)
    then show ?thesis by simp
  next
    case False
    then have "nat ?e - nat ?s = length data - nat ?s" by (simp add: min_def)
    moreover have "length data - nat ?s \<le> nat page_size" using False s0 by linarith
    ultimately show ?thesis by (simp add: min_def)
  qed
  finally show ?thesis using assms by (simp add: paginate_def Let_def)
qed

lemma page_start_in_range:
  assumes "1 \<le> (ps::int)" "1 \<le> p" "p \<le> (n + ps - 1) div ps"
  shows "(p - 1) * ps < n"
proof -
  have "ps * ((n + ps - 1) div ps) \<le> n + ps - 1"
    using assms(1) mult_div_mod_eq [of ps "n + ps - 1"] pos_mod_sign [of ps "n + ps - 1"]
    by linarith
  moreover have "ps * p \<le> ps * ((n + ps - 1) div ps)"
    using assms by (simp add: mult_left_mono)
  ultimately have "ps * p \<le> n + ps - 1" by linarith
  then show ?thesis by (simp add: algebra_simps)
qed


lemma pages_cover_length:
  assumes "1 \<le> (ps::int)" "0 \<le> n"
  shows "n \<le> ((n + ps - 1) div ps) * ps"
proof -
  have "ps * ((n + ps - 1) div ps) + (n + ps - 1) mod ps = n + ps - 1"
    by (rule mult_div_mod_eq)
  moreover have "(n + ps - 1) mod ps < ps" using assms by simp
  ultimately have "n \<le> ps * ((n + ps - 1) div ps)" by linarith
  then show ?thesis by (simp add: mult.commute)
qed

text \<open>
  C5: for a table whose full rows are present and a page size of at least 1,
  the pages 1 to \<open>\<lceil>total / page_size\<rceil>\<close> concatenated in order are the
  materialized rows; each of these pages is served, and reports that number
  of pages, \<open>has_next = (end < total)\<close> and \<open>has_previous = (page > 1)\<close>.
\<close>

theorem pagination_coverage:
  assumes "get_data_with_edits dt = Some data" and "1 \<le> page_size"
  shows "concat (map (\<lambda>p. page_rows (paginate (get_schema dt) data (int p) page_size))
                   [1..<Suc (nat \<lceil>of_nat (length data) / of_int page_size :: rat\<rceil>)]) = data \<and>
         (\<forall>p. 1 \<le> p \<and> p \<le> \<lceil>of_nat (length data) / of_int page_size :: rat\<rceil> \<longrightarrow>
            (\<exists>r. paginate (get_schema dt) data p page_size = Inr r \<and>
                 pg_total_pages r = \<lceil>of_nat (length data) / of_int page_size :: rat\<rceil> \<and>
                 pg_has_next r =
                   (min ((p - 1) * page_size + page_size) (int (length data)) < int (length data)) \<and>
                 pg_has_previous r = (1 < p)))"
proof -
  let ?n = "int (length data)"
  let ?tp = "(?n + page_size - 1) div page_size"
  let ?m = "nat page_size"
  have tp: "\<lceil>of_nat (length data) / of_int page_size :: rat\<rceil> = ?tp"
    using ceiling_div_pages [OF assms(2), of ?n] by simp
  have inr: "paginate (get_schema dt) data p page_size =
      Inr \<lparr>pg_data = take ?m (drop (nat ((p - 1) * page_size)) data),
           pg_schema = get_schema dt, pg_page = p, pg_page_size = page_size,
           pg_total_rows = ?n, pg_total_pages = ?tp,
           pg_has_next = (min ((p - 1) * page_size + page_size) ?n < ?n),
           pg_has_previous = (1 < p)\<rparr>"
    if "1 \<le> p" "p \<le> ?tp" for p
    using that assms(2) by (intro paginate_in_range page_start_in_range)
  have tp0: "0 \<le> ?tp" using assms(2) by (simp add: pos_imp_zdiv_nonneg_iff)
  have "map (\<lambda>p. page_rows (paginate (get_schema dt) data (int p) page_size)) [1..<Suc (nat ?tp)]
      = map (\<lambda>k. take ?m (drop (k * ?m) data)) [0..<nat ?tp]"
  proof -
    have "[1..<Suc (nat ?tp)] = map Suc [0..<nat ?tp]"
      by (simp add: map_Suc_upt)
    moreover have "page_rows (paginate (get_schema dt) data (int (Suc k)) page_size) =
        take ?m (drop (k * ?m) data)" if "k < nat ?tp" for k
    proof -
      have "1 \<le> int (Suc k)" "int (Suc k) \<le> ?tp" using that by simp_all
      from inr [OF this] have "page_rows (paginate (get_schema dt) data (int (Suc k)) page_size) =
        take ?m (drop (nat ((int (Suc k) - 1) * page_size)) data)"
        by (simp add: page_rows_def)
      moreover have "nat ((int (Suc k) - 1) * page_size) = k * ?m"
        using assms(2) by (simp add: nat_mult_distrib)
      ultimately show ?thesis by simp
    qed
    ultimately show ?thesis by simp
  qed
  then have "concat (map (\<lambda>p. page_rows (paginate (get_schema dt) data (int p) page_size))
      [1..<Suc (nat ?tp)]) = take (nat ?tp * ?m) data"
    by (simp only: concat_chunks)
  moreover have "length data \<le> nat ?tp * ?m"
  proof -
    have "?n \<le> ?tp * page_size" using pages_cover_length [OF assms(2), of ?n] by simp
    then have "nat ?n \<le> nat (?tp * page_size)" by simp
    then show ?thesis using tp0 assms(2) by (simp add: nat_mult_distrib)
  qed
  ultimately have "concat (map (\<lambda>p. page_rows (paginate (get_schema dt) data (int p) page_size))
      [1..<Suc (nat ?tp)]) = data" by simp
  moreover have "\<exists>r. paginate (get_schema dt) data p page_size = Inr r \<and>
                 pg_total_pages r = ?tp \<and>
                 pg_has_next r = (min ((p - 1) * page_size + page_size) ?n < ?n) \<and>
                 pg_has_previous r = (1 < p)" if "1 \<le> p \<and> p \<le> ?tp" for p
    using inr [of p] that by simp
  ultimately show ?thesis unfolding tp by blast
qed

lemma age_table_data: "get_data_with_edits age_table = Some [[(''age'', JFloat (FFin 31))], [(''age'', JInt 25)]]"
  by (simp add: age_table_def get_data_with_edits_def merge_row_def dict_update_def str_int_def
      digits_of_nat.simps upt_rec)

theorem pagination_coverage_witness:
  "get_data_with_edits age_table = Some [[(''age'', JFloat (FFin 31))], [(''age'', JInt 25)]] \<and> (1::int) \<le> 1 \<and>
   concat (map (\<lambda>p. page_rows (paginate (get_schema age_table) [[(''age'', JFloat (FFin 31))], [(''age'', JInt 25)]] (int p) 1)) [1..<3])
     = [[(''age'', JFloat (FFin 31))], [(''age'', JInt 25)]] \<and>
   (\<exists>r. paginate (get_schema age_table) [[(''age'', JFloat (FFin 31))], [(''age'', JInt 25)]] 1 1 = Inr r \<and>
        pg_total_pages r = 2 \<and> pg_has_next r \<and> \<not> pg_has_previous r)"
proof -
  have n: "\<lceil>of_nat (length [[(''age'', JFloat (FFin 31))], [(''age'', JInt 25)]]) / of_int 1 :: rat\<rceil> = 2"
    by simp
  have s: "Suc (nat 2) = 3" by simp
  show ?thesis
    using pagination_coverage [OF age_table_data, of 1] age_table_data unfolding n s
    by auto
qed

section \<open>The preview\<close>

lemma preview_limit_range: "1 \<le> preview_limit param \<and> preview_limit param \<le> 10000"
  by (simp add: preview_limit_def split: option.splits)

lemma length_sample_indices: "int (length (sample_indices n limit)) \<le> max 0 limit"
proof -
  have "length (sample_indices n limit) \<le> length [0..<nat limit]"
    unfolding sample_indices_def length_map by (rule length_filter_le)
  then show ?thesis by simp
qed

text \<open>
  C9: the limit of a preview is clamped to 1 .. 10000; for every row sequence
  with at most \<open>limit\<close> rows the preview is the row sequence itself and is not
  marked as sampled; and in every case the preview has at most \<open>limit\<close> rows.
\<close>

theorem preview_within_limit:
  "1 \<le> preview_limit param \<and> preview_limit param \<le> 10000 \<and>
   (get_data_with_edits dt = Some data \<longrightarrow>
      preview dt param = Inr (preview_rows (get_schema dt) data (preview_limit param))) \<and>
   (1 \<le> limit \<and> limit \<le> 10000 \<longrightarrow>
      (int (length data) \<le> limit \<longrightarrow>
         pv_data (preview_rows sch data limit) = data \<and>
         \<not> pv_is_sampled (preview_rows sch data limit)) \<and>
      int (length (pv_data (preview_rows sch data limit))) \<le> limit)"
proof -
  have "int (length (sample_indices (length data) limit)) \<le> limit" if "1 \<le> limit"
    using length_sample_indices [of "length data" limit] that by simp
  then show ?thesis using preview_limit_range [of param]
    by (simp add: preview_def preview_rows_def Let_def)
qed

theorem preview_within_limit_witness:
  "get_data_with_edits age_table = Some [[(''age'', JFloat (FFin 31))], [(''age'', JInt 25)]] \<and>
   preview age_table (Some ''5'') =
     Inr (preview_rows (get_schema age_table)
            [[(''age'', JFloat (FFin 31))], [(''age'', JInt 25)]] (preview_limit (Some ''5''))) \<and>
   (1::int) \<le> 5 \<and> (5::int) \<le> 10000 \<and>
   int (length [[(''age'', JFloat (FFin 31))], [(''age'', JInt 25)]]) \<le> 5 \<and>
   pv_data (preview_rows [] [[(''age'', JFloat (FFin 31))], [(''age'', JInt 25)]] 5) =
     [[(''age'', JFloat (FFin 31))], [(''age'', JInt 25)]] \<and>
   \<not> pv_is_sampled (preview_rows [] [[(''age'', JFloat (FFin 31))], [(''age'', JInt 25)]] 5)"
  using preview_within_limit [of "Some ''5''" age_table
      "[[(''age'', JFloat (FFin 31))], [(''age'', JInt 25)]]" 5 "[]"] age_table_data
  by simp

section \<open>Validation of edits\<close>

lemma length_get_data_with_edits:
  "full_data_json dt = Some rows \<Longrightarrow> \<exists>data. get_data_with_edits dt = Some data \<and> length data = length rows"
  by (simp add: get_data_with_edits_def)

text \<open>
  C10: a boolean sent for a column of declared type \<open>number\<close> passes the
  numeric instance check, since \<^verbatim>\<open>bool\<close> is a subclass of \<^verbatim>\<open>int\<close>: validation
  accepts it and the overlay stores the boolean itself.
\<close>

theorem bool_accepted_in_number_column:
  assumes "map_of (get_schema dt) c = Some ''number''"
    and "full_data_json dt = Some rows"
    and "py_int k = Some i" and "0 \<le> i" and "i < int (length rows)"
  shows "coerce rep ''number'' (JBool b) = Some (JBool b) \<and>
         validate_cells rep (get_schema dt) i [(c, JBool b)] vre errs =
           (AList.update c (JBool b) vre, errs) \<and>
         patch rep True dt (JObj [(k, JObj [(c, JBool b)])]) =
           (Applied 1 [(str_int i, [(c, JBool b)])],
            dt\<lparr>edited_data_json :=
                 AList.update (str_int i) [(c, JBool b)] (edited_data_json dt)\<rparr>)"
proof -
  obtain data where d: "get_data_with_edits dt = Some data" "length data = length rows"
    using length_get_data_with_edits [OF assms(2)] by blast
  have c: "coerce rep ''number'' (JBool b) = Some (JBool b)" by (simp add: coerce_def)
  show ?thesis using assms d c
    by (simp add: patch_def Let_def dict_update_def get_edited_data_def)
qed

theorem bool_accepted_in_number_column_witness:
  "map_of (get_schema age_table) ''age'' = Some ''number'' \<and>
   full_data_json age_table = Some [[(''age'', JInt 30)], [(''age'', JInt 25)]] \<and>
   py_int ''1'' = Some 1 \<and> (0::int) \<le> 1 \<and>
   (1::int) < int (length [[(''age'', JInt 30)], [(''age'', JInt 25)]]) \<and>
   patch no_text True age_table (JObj [(''1'', JObj [(''age'', JBool True)])]) =
     (Applied 1 [(''1'', [(''age'', JBool True)])],
      age_table\<lparr>edited_data_json :=
        [(''0'', [(''age'', JFloat (FFin 31))]), (''1'', [(''age'', JBool True)])]\<rparr>)"
proof -
  have s: "map_of (get_schema age_table) ''age'' = Some ''number''"
    by (simp add: get_schema_def age_table_def)
  have f: "full_data_json age_table = Some [[(''age'', JInt 30)], [(''age'', JInt 25)]]"
    by (simp add: age_table_def)
  have k: "py_int ''1'' = Some 1" by code_simp
  have i: "str_int 1 = ''1''" by code_simp
  have e: "edited_data_json age_table = [(''0'', [(''age'', JFloat (FFin 31))])]"
    by (simp add: age_table_def)
  show ?thesis
    using bool_accepted_in_number_column [OF s f k, of no_text True "[]" "[]"] s f k
    by (simp add: i e)
qed

text \<open>
  C8: for a value that is not null and a column of declared type \<open>number\<close>, a
  string is accepted exactly when \<^verbatim>\<open>float\<close> parses it, and the parsed float is
  what is stored; a string that does not parse and a value that is neither a
  string nor a number are rejected with the error that names the row, the
  column, the value and the expected type; a number is stored as it is.
\<close>

theorem number_column_validation:
  assumes "map_of sch c = Some ''number''" and "v \<noteq> JNull"
  shows "(\<forall>s. v = JStr s \<longrightarrow>
            (case py_float s of
               Some f \<Rightarrow> validate_cells rep sch i [(c, v)] vre errs =
                           (AList.update c (JFloat f) vre, errs)
             | None \<Rightarrow> validate_cells rep sch i [(c, v)] vre errs =
                         (vre, errs @ [InvalidValue i c v ''number'']))) \<and>
         ((\<forall>s. v \<noteq> JStr s) \<and> is_int_or_float v \<longrightarrow>
            validate_cells rep sch i [(c, v)] vre errs = (AList.update c v vre, errs)) \<and>
         ((\<forall>s. v \<noteq> JStr s) \<and> \<not> is_int_or_float v \<longrightarrow>
            validate_cells rep sch i [(c, v)] vre errs =
              (vre, errs @ [InvalidValue i c v ''number'']))"
  using assms by (cases v) (auto simp: coerce_def split: option.splits)

lemma py_float_abc: "py_float ''abc'' = None" by code_simp

section \<open>The edit overlay\<close>

lemma py_int_0: "py_int ''0'' = Some 0" by code_simp
lemma str_int_0: "str_int 0 = ''0''" by code_simp

text \<open>
  C1 says that an edit of another column of a row that an earlier request
  edited keeps the earlier edit. \<^verbatim>\<open>current_edits.update(validated_edits)\<close>
  assigns whole rows: after the edit of column \<open>a\<close> of row 0 and then of
  column \<open>b\<close> of row 0, both accepted, the overlay of row 0 holds \<open>b\<close> alone
  and the materialized row shows the original \<open>a\<close> again.
\<close>

theorem second_edit_drops_first:
  "patch rep True two_column_table (JObj [(''0'', JObj [(''a'', JInt 10)])]) =
     (Applied 1 [(''0'', [(''a'', JInt 10)])],
      two_column_table\<lparr>edited_data_json := [(''0'', [(''a'', JInt 10)])]\<rparr>) \<and>
   get_data_with_edits (two_column_table\<lparr>edited_data_json := [(''0'', [(''a'', JInt 10)])]\<rparr>) =
     Some [[(''a'', JInt 10), (''b'', JInt 2)]] \<and>
   patch rep True (two_column_table\<lparr>edited_data_json := [(''0'', [(''a'', JInt 10)])]\<rparr>)
       (JObj [(''0'', JObj [(''b'', JInt 20)])]) =
     (Applied 1 [(''0'', [(''b'', JInt 20)])],
      two_column_table\<lparr>edited_data_json := [(''0'', [(''b'', JInt 20)])]\<rparr>) \<and>
   get_data_with_edits (two_column_table\<lparr>edited_data_json := [(''0'', [(''b'', JInt 20)])]\<rparr>) =
     Some [[(''a'', JInt 1), (''b'', JInt 20)]]"
  by (simp add: patch_def two_column_table_def get_data_with_edits_def get_schema_def
      get_edited_data_def merge_row_def dict_update_def coerce_def py_int_0 str_int_0 Let_def)


section \<open>Ingestion\<close>

lemma find_table_append_new:
  "find_table db p f = None \<Longrightarrow> tbl_project t = p \<Longrightarrow> tbl_source_file t = f \<Longrightarrow>
   find_table (db @ [t]) p f = Some t"
  by (induction db) (auto simp: find_table_def)

lemma length_save_table: "length (save_table db p f t') = length db"
  by (induction db) auto

lemma tables_of_save_table:
  "tbl_project t' = p \<Longrightarrow> tbl_source_file t' = f \<Longrightarrow>
   length (tables_of (save_table db p f t') p f) = length (tables_of db p f)"
  by (induction db) (auto simp: tables_of_def)

text \<open>
  C7, as the specification states it: the second call returns the full rows
  of the first. When the first call could not read the file it stores the
  table without full rows, and the second call, finding them missing for a
  table within the cap, reads the file again and returns them.
\<close>

theorem second_ingest_backfills:
  "ingest env_read_fails [] 1 1 = (Created sample_only_table, [sample_only_table]) \<and>
   ingest env_read_works [sample_only_table] 1 1 =
     (Existing (sample_only_table\<lparr>full_data_json := Some [[(''age'', JInt 30)]]\<rparr>),
      [sample_only_table\<lparr>full_data_json := Some [[(''age'', JInt 30)]]\<rparr>]) \<and>
   full_data_json (sample_only_table\<lparr>full_data_json := Some [[(''age'', JInt 30)]]\<rparr>) \<noteq>
     full_data_json sample_only_table"
  by (simp add: ingest_def find_table_def env_read_fails_def env_read_works_def csv_parse_def
      sample_only_table_def load_full_data_def Let_def)

text \<open>
  C7, amended: a second call for the uploaded file of a call that created the
  table creates no table and returns the stored one, with the same schema and
  row count. Its full rows are those of the first call, unless the first call
  stored none for a table within the cap and the second call's read succeeds:
  then they are the rows read by the second call. When the read gives in the
  second call what it gave in the first, the full rows are the same.
\<close>

theorem second_ingest_returns_existing:
  assumes "ingest env1 db p f = (Created t1, db1)"
  shows "\<exists>t2 db2. ingest env2 db1 p f = (Existing t2, db2) \<and>
           length db2 = length db1 \<and>
           length (tables_of db2 p f) = length (tables_of db1 p f) \<and>
           schema_json t2 = schema_json t1 \<and> num_rows t2 = num_rows t1 \<and>
           full_data_json t2 =
             (if full_data_json t1 = None \<and> num_rows t1 \<le> 10000 \<and>
                 load_full_data (env_read env2) \<noteq> None
              then load_full_data (env_read env2) else full_data_json t1) \<and>
           (env_read env2 = env_read env1 \<longrightarrow> full_data_json t2 = full_data_json t1)"
proof -
  from assms obtain pd where none: "find_table db p f = None"
    and pd: "env_parse env1 = Parsed pd" and ok: "env_create_ok env1"
    and t1: "t1 = \<lparr>tbl_project = p, tbl_source_file = f, schema_json = pf_schema pd,
        num_rows = pf_num_rows pd, sample_json = pf_sample_data pd,
        full_data_json = (if pf_num_rows pd \<le> 10000 then load_full_data (env_read env1) else None),
        edited_data_json = []\<rparr>"
    and db1: "db1 = db @ [t1]"
    by (auto simp: ingest_def Let_def split: option.splits parse_result.splits if_splits)
  have found: "find_table db1 p f = Some t1"
    unfolding db1 by (rule find_table_append_new [OF none]) (simp_all add: t1)
  have pf: "tbl_project t1 = p" "tbl_source_file t1 = f" by (simp_all add: t1)
  show ?thesis
  proof (cases "full_data_json t1 = None \<and> num_rows t1 \<le> 10000")
    case False
    then show ?thesis using found by (auto simp: ingest_def)
  next
    case True
    then have l1: "load_full_data (env_read env1) = None" by (simp add: t1 split: if_splits)
    show ?thesis
    proof (cases "load_full_data (env_read env2)")
      case None
      then show ?thesis using found True by (simp add: ingest_def)
    next
      case (Some full)
      then show ?thesis using found True l1 pf
        by (cases "env_save_ok env2")
           (auto simp: ingest_def Let_def length_save_table tables_of_save_table)
    qed
  qed
qed


theorem second_ingest_returns_existing_witness:
  "ingest env_read_fails [] 1 1 = (Created sample_only_table, [sample_only_table]) \<and>
   env_read env_read_fails = env_read env_read_fails \<and>
   (\<exists>t2 db2. ingest env_read_fails [sample_only_table] 1 1 = (Existing t2, db2) \<and>
       length db2 = 1 \<and> schema_json t2 = [(''age'', ''number'')] \<and> num_rows t2 = 1 \<and>
       full_data_json t2 = None)"
proof -
  have c: "ingest env_read_fails [] 1 1 = (Created sample_only_table, [sample_only_table])"
    by (simp add: ingest_def find_table_def env_read_fails_def csv_parse_def
        sample_only_table_def load_full_data_def Let_def)
  have "full_data_json sample_only_table = None" "schema_json sample_only_table = [(''age'', ''number'')]"
    "num_rows sample_only_table = 1"
    by (simp_all add: sample_only_table_def)
  then show ?thesis
    using second_ingest_returns_existing [OF c, of env_read_fails] c by auto
qed

section \<open>All-or-nothing edits\<close>

lemma type_incompatible_coerce:
  "type_incompatible t v \<Longrightarrow> v \<noteq> JNull \<and> coerce rep t v = None"
  by (cases v) (auto simp: coerce_def)

lemma validate_cells_keeps_errors:
  "e \<in> set errs \<Longrightarrow> e \<in> set (snd (validate_cells rep sch i cells vre errs))"
  by (induction cells arbitrary: vre errs) (auto split: option.splits)

lemma validate_cells_unknown_column:
  "(c, v) \<in> set cells \<Longrightarrow> map_of sch c = None \<Longrightarrow>
   UnknownColumn i c \<in> set (snd (validate_cells rep sch i cells vre errs))"
proof (induction cells arbitrary: vre errs)
  case Nil
  then show ?case by simp
next
  case (Cons cv cells)
  show ?case
  proof (cases "cv = (c, v)")
    case True
    then show ?thesis using Cons.prems(2) by (simp add: validate_cells_keeps_errors)
  next
    case False
    then have "(c, v) \<in> set cells" using Cons.prems(1) by simp
    then show ?thesis using Cons.IH Cons.prems(2)
      by (cases cv) (simp split: option.splits)
  qed
qed

lemma validate_cells_invalid_value:
  "(c, v) \<in> set cells \<Longrightarrow> map_of sch c = Some t \<Longrightarrow> type_incompatible t v \<Longrightarrow>
   InvalidValue i c v t \<in> set (snd (validate_cells rep sch i cells vre errs))"
proof (induction cells arbitrary: vre errs)
  case Nil
  then show ?case by simp
next
  case (Cons cv cells)
  show ?case
  proof (cases "cv = (c, v)")
    case True
    then show ?thesis
      using Cons.prems(2) type_incompatible_coerce [OF Cons.prems(3), of rep]
      by (simp add: validate_cells_keeps_errors)
  next
    case False
    then have "(c, v) \<in> set cells" using Cons.prems(1) by simp
    then show ?thesis using Cons.IH Cons.prems(2,3)
      by (cases cv) (simp split: option.splits)
  qed
qed

lemma validate_rows_keeps_errors:
  "e \<in> set errs \<Longrightarrow> e \<in> set (snd (validate_rows rep sch n rows ve errs))"
  by (induction rows arbitrary: ve errs)
     (auto simp: Let_def validate_cells_keeps_errors split: option.splits json.splits)


lemma validate_rows_invalid_index:
  "(k, re) \<in> set rows \<Longrightarrow> py_int k = None \<Longrightarrow>
   InvalidRowIndex k \<in> set (snd (validate_rows rep sch n rows ve errs))"
proof (induction rows arbitrary: ve errs)
  case Nil
  then show ?case by simp
next
  case (Cons kr rows)
  show ?case
  proof (cases "kr = (k, re)")
    case True
    then show ?thesis using Cons.prems(2) by (simp add: validate_rows_keeps_errors)
  next
    case False
    then have "(k, re) \<in> set rows" using Cons.prems(1) by simp
    then show ?thesis using Cons.IH Cons.prems(2)
      by (cases kr) (simp add: Let_def split: option.splits json.splits)
  qed
qed

lemma validate_rows_out_of_range:
  "(k, re) \<in> set rows \<Longrightarrow> py_int k = Some i \<Longrightarrow> i < 0 \<or> int n \<le> i \<Longrightarrow>
   RowIndexOutOfRange i \<in> set (snd (validate_rows rep sch n rows ve errs))"
proof (induction rows arbitrary: ve errs)
  case Nil
  then show ?case by simp
next
  case (Cons kr rows)
  show ?case
  proof (cases "kr = (k, re)")
    case True
    then show ?thesis using Cons.prems(2,3) by (auto simp: validate_rows_keeps_errors)
  next
    case False
    then have "(k, re) \<in> set rows" using Cons.prems(1) by simp
    then show ?thesis using Cons.IH Cons.prems(2,3)
      by (cases kr) (simp add: Let_def split: option.splits json.splits)
  qed
qed

lemma validate_rows_cell_error:
  assumes "(k, JObj cells) \<in> set rows" and "py_int k = Some i" and "0 \<le> i" and "i < int n"
    and "\<And>vre errs. e \<in> set (snd (validate_cells rep sch i cells vre errs))"
  shows "e \<in> set (snd (validate_rows rep sch n rows ve errs))"
  using assms(1)
proof (induction rows arbitrary: ve errs)
  case Nil
  then show ?case by simp
next
  case (Cons kr rows)
  show ?case
  proof (cases "kr = (k, JObj cells)")
    case True
    then show ?thesis using assms(2-5) by (simp add: Let_def validate_rows_keeps_errors)
  next
    case False
    then have "(k, JObj cells) \<in> set rows" using Cons.prems by simp
    then show ?thesis using Cons.IH
      by (cases kr) (simp add: Let_def split: option.splits json.splits)
  qed
qed

lemma invalid_row_has_error:
  assumes "kr \<in> set rows" and "invalid_row sch n kr"
  shows "snd (validate_rows rep sch n rows ve errs) \<noteq> []"
proof -
  obtain k re where kr: "kr = (k, re)" by (cases kr)
  have "\<exists>e. e \<in> set (snd (validate_rows rep sch n rows ve errs))"
  proof (cases "py_int k")
    case None
    then show ?thesis using validate_rows_invalid_index assms(1) kr by blast
  next
    case (Some i)
    show ?thesis
    proof (cases "i < 0 \<or> int n \<le> i")
      case True
      then show ?thesis using validate_rows_out_of_range [OF _ Some True] assms(1) kr by blast
    next
      case False
      then obtain cells where re: "re = JObj cells" and ex: "list_ex (invalid_cell sch) cells"
        using assms(2) Some kr by (auto simp: invalid_row_def split: json.splits)
      then obtain c v where cv: "(c, v) \<in> set cells" "invalid_cell sch (c, v)"
        by (auto simp: list_ex_iff)
      have rng: "0 \<le> i" "i < int n" using False by auto
      have mem: "(k, JObj cells) \<in> set rows" using assms(1) kr re by simp
      show ?thesis
      proof (cases "map_of sch c")
        case None
        have "UnknownColumn i c \<in> set (snd (validate_rows rep sch n rows ve errs))"
          by (rule validate_rows_cell_error [OF mem Some rng])
             (rule validate_cells_unknown_column [OF cv(1) None])
        then show ?thesis by blast
      next
        case (Some t)
        then have "type_incompatible t v" using cv(2) by (simp add: invalid_cell_def)
        have "InvalidValue i c v t \<in> set (snd (validate_rows rep sch n rows ve errs))"
          by (rule validate_rows_cell_error [OF mem \<open>py_int k = Some i\<close> rng])
             (rule validate_cells_invalid_value [OF cv(1) Some \<open>type_incompatible t v\<close>])
        then show ?thesis by blast
      qed
    qed
  qed
  then show ?thesis by auto
qed


lemma type_incompatible_iff:
  "type_incompatible t v = (v \<noteq> JNull \<and> coerce rep t v = None)"
  by (cases v) (auto simp: coerce_def)

text \<open>
  C2: when a request for a table with full rows has an invalid cell (a row
  index that does not parse or is out of range, an unknown column, or a value
  incompatible with the type of its column), nothing of it is applied: the
  table, so its overlay and its materialized rows, is unchanged, and the
  response carries the errors of the whole request, one for every row index
  that does not parse or is out of range and one for every invalid cell of a
  row in range.
\<close>

theorem invalid_request_not_applied:
  assumes "get_data_with_edits dt = Some data"
    and "has_invalid_cell (get_schema dt) (length data) rows"
  shows "\<exists>errs. patch rep save_ok dt (JObj rows) = (ValidationFailed errs, dt) \<and>
           errs = snd (validate_rows rep (get_schema dt) (length data) rows [] []) \<and>
           errs \<noteq> [] \<and>
           edited_data_json (snd (patch rep save_ok dt (JObj rows))) = edited_data_json dt \<and>
           get_data_with_edits (snd (patch rep save_ok dt (JObj rows))) = Some data \<and>
           (\<forall>k re. (k, re) \<in> set rows \<longrightarrow>
              (py_int k = None \<longrightarrow> InvalidRowIndex k \<in> set errs) \<and>
              (\<forall>i. py_int k = Some i \<longrightarrow>
                 (i < 0 \<or> int (length data) \<le> i \<longrightarrow> RowIndexOutOfRange i \<in> set errs) \<and>
                 (0 \<le> i \<and> i < int (length data) \<longrightarrow>
                    (\<forall>cells c v. re = JObj cells \<and> (c, v) \<in> set cells \<longrightarrow>
                       (map_of (get_schema dt) c = None \<longrightarrow> UnknownColumn i c \<in> set errs) \<and>
                       (\<forall>t. map_of (get_schema dt) c = Some t \<and> type_incompatible t v \<longrightarrow>
                          InvalidValue i c v t \<in> set errs)))))"
proof -
  let ?errs = "snd (validate_rows rep (get_schema dt) (length data) rows [] [])"
  obtain kr where kr: "kr \<in> set rows" "invalid_row (get_schema dt) (length data) kr"
    using assms(2) by (auto simp: has_invalid_cell_def list_ex_iff)
  have ne: "?errs \<noteq> []" by (rule invalid_row_has_error [OF kr])
  then have p: "patch rep save_ok dt (JObj rows) = (ValidationFailed ?errs, dt)"
    using assms(1) by (simp add: patch_def Let_def)
  have c1: "InvalidRowIndex k \<in> set ?errs" if "(k, re) \<in> set rows" "py_int k = None" for k re
    using that by (rule validate_rows_invalid_index)
  have c2: "RowIndexOutOfRange i \<in> set ?errs"
    if "(k, re) \<in> set rows" "py_int k = Some i" "i < 0 \<or> int (length data) \<le> i" for k re i
    using that by (rule validate_rows_out_of_range)
  have c3: "UnknownColumn i c \<in> set ?errs"
    if "(k, JObj cells) \<in> set rows" "py_int k = Some i" "0 \<le> i" "i < int (length data)"
      "(c, v) \<in> set cells" "map_of (get_schema dt) c = None" for k cells i c v
    by (rule validate_rows_cell_error [OF that(1-4)])
       (rule validate_cells_unknown_column [OF that(5,6)])
  have c4: "InvalidValue i c v t \<in> set ?errs"
    if "(k, JObj cells) \<in> set rows" "py_int k = Some i" "0 \<le> i" "i < int (length data)"
      "(c, v) \<in> set cells" "map_of (get_schema dt) c = Some t" "type_incompatible t v"
    for k cells i c v t
    by (rule validate_rows_cell_error [OF that(1-4)])
       (rule validate_cells_invalid_value [OF that(5-7)])
  show ?thesis
    apply (rule exI [of _ ?errs])
    apply (simp only: p snd_conv assms(1) simp_thms ne)
    using c1 c2 c3 c4 apply blast
    done
qed

lemma py_int_5: "py_int ''5'' = Some 5" by code_simp

theorem invalid_request_not_applied_witness:
  "get_data_with_edits age_table = Some [[(''age'', JFloat (FFin 31))], [(''age'', JInt 25)]] \<and>
   has_invalid_cell (get_schema age_table) 2
     [(''0'', JObj [(''age'', JInt 32)]), (''5'', JObj [(''age'', JInt 1)])] \<and>
   patch no_text True age_table
     (JObj [(''0'', JObj [(''age'', JInt 32)]), (''5'', JObj [(''age'', JInt 1)])]) =
     (ValidationFailed [RowIndexOutOfRange 5], age_table)"
proof -
  have h: "has_invalid_cell (get_schema age_table) 2
      [(''0'', JObj [(''age'', JInt 32)]), (''5'', JObj [(''age'', JInt 1)])]"
    by (simp add: has_invalid_cell_def invalid_row_def py_int_5 py_int_0)
  have h': "has_invalid_cell (get_schema age_table)
      (length [[(''age'', JFloat (FFin 31))], [(''age'', JInt 25)]])
      [(''0'', JObj [(''age'', JInt 32)]), (''5'', JObj [(''age'', JInt 1)])]"
    using h by (simp add: numeral_2_eq_2)
  have v: "snd (validate_rows no_text (get_schema age_table)
      (length [[(''age'', JFloat (FFin 31))], [(''age'', JInt 25)]])
      [(''0'', JObj [(''age'', JInt 32)]), (''5'', JObj [(''age'', JInt 1)])] [] []) =
      [RowIndexOutOfRange 5]"
    by (simp add: py_int_5 py_int_0 get_schema_def age_table_def coerce_def Let_def)
  show ?thesis
    using invalid_request_not_applied [OF age_table_data h', of no_text True] h age_table_data
    unfolding v by simp
qed

section \<open>The rounding error of binary64\<close>

lemma ilog2_bounds: "0 < n \<Longrightarrow> 2 ^ ilog2 n \<le> n \<and> n < 2 ^ Suc (ilog2 n)"
proof (induction n rule: ilog2.induct)
  case (1 n)
  show ?case
  proof (cases "n < 2")
    case True
    then have "n = 1" using "1.prems" by simp
    then show ?thesis by (simp add: ilog2.simps)
  next
    case False
    then have pos: "0 < n div 2" by simp
    have ih: "2 ^ ilog2 (n div 2) \<le> n div 2 \<and> n div 2 < 2 ^ Suc (ilog2 (n div 2))"
      using "1.IH" [OF False pos] .
    have eq: "ilog2 n = Suc (ilog2 (n div 2))" using False by (subst ilog2.simps) simp
    have "2 * 2 ^ ilog2 (n div 2) \<le> 2 * (n div 2)" using ih by simp
    then have lo: "2 ^ Suc (ilog2 (n div 2)) \<le> n" by simp
    have "Suc (n div 2) \<le> 2 ^ Suc (ilog2 (n div 2))" using ih by simp
    then have "2 * Suc (n div 2) \<le> 2 * 2 ^ Suc (ilog2 (n div 2))" by (rule mult_le_mono2)
    then have hi: "n < 2 ^ Suc (Suc (ilog2 (n div 2)))" by simp
    show ?thesis unfolding eq using lo hi by simp
  qed
qed

lemma floor_log2_bounds:
  assumes "1 \<le> (x::rat)"
  shows "2 ^ ilog2 (nat \<lfloor>x\<rfloor>) \<le> x \<and> x < 2 ^ Suc (ilog2 (nat \<lfloor>x\<rfloor>))"
proof -
  let ?k = "nat \<lfloor>x\<rfloor>"
  have f1: "1 \<le> \<lfloor>x\<rfloor>" using assms by simp
  then have kpos: "0 < ?k" by simp
  have kx: "(of_nat ?k :: rat) = of_int \<lfloor>x\<rfloor>" using f1 by simp
  have b: "2 ^ ilog2 ?k \<le> ?k \<and> ?k < 2 ^ Suc (ilog2 ?k)" by (rule ilog2_bounds [OF kpos])
  have "(of_nat (2 ^ ilog2 ?k) :: rat) \<le> of_nat ?k" using b by (simp only: of_nat_le_iff)
  then have "(2 :: rat) ^ ilog2 ?k \<le> of_int \<lfloor>x\<rfloor>" unfolding kx by simp
  moreover have "of_int \<lfloor>x\<rfloor> \<le> x" by simp
  ultimately have lo: "(2 :: rat) ^ ilog2 ?k \<le> x" by linarith
  have "Suc ?k \<le> 2 ^ Suc (ilog2 ?k)" using b by simp
  then have "(of_nat (Suc ?k) :: rat) \<le> of_nat (2 ^ Suc (ilog2 ?k))" by (simp only: of_nat_le_iff)
  then have "of_int \<lfloor>x\<rfloor> + 1 \<le> (2 :: rat) ^ Suc (ilog2 ?k)" using kx by simp
  moreover have "x < of_int \<lfloor>x\<rfloor> + 1" by linarith
  ultimately have hi: "x < 2 ^ Suc (ilog2 ?k)" by linarith
  show ?thesis using lo hi by simp
qed

lemma round_half_even_error: "\<bar>of_int (round_half_even y) - y\<bar> \<le> 1 / 2"
proof -
  have "of_int \<lfloor>y\<rfloor> \<le> y" "y < of_int \<lfloor>y\<rfloor> + 1" by linarith+
  then show ?thesis by (auto simp: round_half_even_def Let_def)
qed

lemma binary64_round_normal:
  assumes "1 \<le> (x::rat)"
  shows "binary64_round x =
     of_int (round_half_even (x / (2 ^ ilog2 (nat \<lfloor>x\<rfloor>) / 2 ^ 52))) *
       (2 ^ ilog2 (nat \<lfloor>x\<rfloor>) / 2 ^ 52)"
proof -
  have e: "max (floor_log2 \<bar>x\<bar>) (- 1022) = int (ilog2 (nat \<lfloor>x\<rfloor>))"
    using assms by (simp add: floor_log2_def)
  have u: "(2 :: rat) powi (int (ilog2 (nat \<lfloor>x\<rfloor>)) - 52) = 2 ^ ilog2 (nat \<lfloor>x\<rfloor>) / 2 ^ 52"
    by (simp add: power_int_diff)
  show ?thesis using assms unfolding binary64_round_def e Let_def u by simp
qed

lemma binary64_round_error:
  assumes "1 \<le> (x::rat)"
  shows "\<bar>binary64_round x - x\<bar> \<le> x / 2 ^ 53"
proof -
  define p :: rat where "p = 2 ^ ilog2 (nat \<lfloor>x\<rfloor>)"
  define u :: rat where "u = p / 2 ^ 52"
  define r :: rat where "r = of_int (round_half_even (x / u))"
  have ppos: "0 < p" by (simp add: p_def)
  then have upos: "0 < u" by (simp add: u_def)
  have px: "p \<le> x" using floor_log2_bounds [OF assms] by (simp add: p_def)
  have fl: "binary64_round x = r * u"
    unfolding binary64_round_normal [OF assms] r_def u_def p_def ..
  have "r * u - x = (r - x / u) * u" using upos by (simp add: field_simps)
  then have "\<bar>binary64_round x - x\<bar> = \<bar>r - x / u\<bar> * u"
    using upos by (simp add: fl abs_mult)
  also have "\<dots> \<le> 1 / 2 * u"
    using round_half_even_error [of "x / u"] upos unfolding r_def
    by (intro mult_right_mono) simp_all
  also have "\<dots> = p / 2 ^ 53" by (simp add: u_def)
  also have "\<dots> \<le> x / 2 ^ 53" using px by (simp add: divide_right_mono)
  finally show ?thesis .
qed

lemma binary64_round_zero: "binary64_round 0 = 0"
  by (simp add: binary64_round_def)

section \<open>The sampled indices\<close>

lemma binary64_round_lower:
  assumes "1 \<le> (x::rat)"
  shows "x * (1 - 1 / 2 ^ 53) \<le> binary64_round x"
proof -
  have "x * (1 - 1 / 2 ^ 53) = x - x / 2 ^ 53" by (simp only: right_diff_distrib mult_1_right times_divide_eq_right)
  then show ?thesis using binary64_round_error [OF assms] by linarith
qed

lemma binary64_round_upper:
  assumes "1 \<le> (x::rat)"
  shows "binary64_round x \<le> x * (1 + 1 / 2 ^ 53)"
proof -
  have "x * (1 + 1 / 2 ^ 53) = x + x / 2 ^ 53" by (simp only: distrib_left mult_1_right times_divide_eq_right)
  then show ?thesis using binary64_round_error [OF assms] by linarith
qed

lemma sample_ratio_lower:
  assumes "1 \<le> limit" and "limit \<le> 10000" and "limit < int n"
  shows "(10001 :: rat) / 10000 \<le> of_nat n / of_int limit"
proof -
  define l :: rat where "l = of_int limit"
  have lpos: "0 < l" using assms(1) by (simp add: l_def)
  have l4: "l \<le> 10000"
  proof -
    have "(of_int limit :: rat) \<le> of_int 10000" using assms(2) by (simp only: of_int_le_iff)
    then show ?thesis by (simp add: l_def)
  qed
  have "limit + 1 \<le> int n" using assms(3) by simp
  then have "(of_int (limit + 1) :: rat) \<le> of_int (int n)" by (simp only: of_int_le_iff)
  then have n: "l + 1 \<le> of_nat n" by (simp add: l_def)
  have "(10001 :: rat) / 10000 = 1 + 1 / 10000" by simp
  also have "\<dots> \<le> 1 + 1 / l" using lpos l4 by (simp add: frac_le)
  also have "\<dots> = (l + 1) / l" using lpos by (simp add: field_simps)
  also have "\<dots> \<le> of_nat n / l" using n lpos by (simp add: divide_right_mono)
  finally show ?thesis by (simp add: l_def)
qed

lemma sample_step_lower:
  assumes "1 \<le> limit" and "limit \<le> 10000" and "limit < int n"
  shows "10001 / 10000 * (1 - 1 / 2 ^ 53) \<le> sample_step n limit"
proof -
  let ?x = "of_nat n / of_int limit :: rat"
  have x: "10001 / 10000 \<le> ?x" by (rule sample_ratio_lower [OF assms])
  have "(1::rat) \<le> 10001 / 10000" by simp
  from this x have "1 \<le> ?x" by (rule order_trans)
  then have "?x * (1 - 1 / 2 ^ 53) \<le> binary64_round ?x" by (rule binary64_round_lower)
  moreover have "10001 / 10000 * (1 - 1 / 2 ^ 53) \<le> ?x * (1 - 1 / 2 ^ 53)"
    using x by (intro mult_right_mono) simp_all
  ultimately show ?thesis unfolding sample_step_def by linarith
qed

lemma sample_index_zero: "sample_index step 0 = 0"
  by (simp add: sample_index_def binary64_round_zero py_trunc_def)

lemma sample_index_step:
  assumes s: "10001 / 10000 * (1 - 1 / 2 ^ 53) \<le> step" and i: "i < 10000"
  shows "0 \<le> sample_index step i \<and> sample_index step i + 1 \<le> sample_index step (Suc i)"
proof -
  define eps :: rat where "eps = 1 / 2 ^ 53"
  have eps: "0 < eps" "eps = 1 / 2 ^ 53" by (simp_all add: eps_def)
  have s1: "1 \<le> step" using s by simp
  let ?a = "of_nat i * step"
  let ?b = "of_nat (Suc i) * step"
  have b1: "1 \<le> ?b" using s1 by (simp add: algebra_simps) (metis add_increasing2 mult_nonneg_nonneg of_nat_0_le_iff order_trans zero_le_one)
  have flb: "?b * (1 - eps) \<le> binary64_round ?b" unfolding eps_def by (rule binary64_round_lower [OF b1])
  have fla: "0 \<le> binary64_round ?a \<and> binary64_round ?a \<le> ?a * (1 + eps)"
  proof (cases "i = 0")
    case True
    then show ?thesis by (simp add: binary64_round_zero)
  next
    case False
    then have "1 \<le> (of_nat i :: rat)" by simp
    then have a1: "1 \<le> ?a" using s1 by (metis mult_mono' mult_1 zero_le_one)
    have "?a * (1 - eps) \<le> binary64_round ?a" unfolding eps_def by (rule binary64_round_lower [OF a1])
    moreover have "0 \<le> ?a * (1 - eps)" using a1 by (simp add: eps_def)
    moreover have "binary64_round ?a \<le> ?a * (1 + eps)" unfolding eps_def by (rule binary64_round_upper [OF a1])
    ultimately show ?thesis by linarith
  qed
  have i': "(of_nat i :: rat) \<le> 9999" using i by simp
  have "1 \<le> step * (1 - (2 * 9999 + 1) * eps)"
  proof -
    have "1 \<le> 10001 / 10000 * (1 - 1 / 2 ^ 53) * (1 - (2 * 9999 + 1) * eps)" by (simp add: eps_def)
    also have "\<dots> \<le> step * (1 - (2 * 9999 + 1) * eps)"
      using s by (intro mult_right_mono) (simp_all add: eps_def)
    finally show ?thesis .
  qed
  also have "\<dots> \<le> step * (1 - (2 * of_nat i + 1) * eps)"
    using i' s1 eps(1) by (intro mult_left_mono) (simp_all add: mult_right_mono)
  also have "\<dots> = ?b * (1 - eps) - ?a * (1 + eps)" by (simp add: algebra_simps)
  finally have "binary64_round ?a + 1 \<le> binary64_round ?b" using fla flb by linarith
  then have "\<lfloor>binary64_round ?a + 1\<rfloor> \<le> \<lfloor>binary64_round ?b\<rfloor>" by (rule floor_mono)
  then have fl: "\<lfloor>binary64_round ?a\<rfloor> + 1 \<le> \<lfloor>binary64_round ?b\<rfloor>" by simp
  have "0 \<le> binary64_round ?b" using fla \<open>binary64_round ?a + 1 \<le> binary64_round ?b\<close> by linarith
  then show ?thesis using fla fl by (simp add: sample_index_def py_trunc_def)
qed

lemma sample_index_strict_mono:
  assumes s: "10001 / 10000 * (1 - 1 / 2 ^ 53) \<le> step" and "i < j" and "j \<le> 10000"
  shows "sample_index step i < sample_index step j"
  using assms(2,3)
proof (induction j)
  case 0
  then show ?case by simp
next
  case (Suc j)
  have j: "j < 10000" using Suc.prems(2) by simp
  have st: "sample_index step j + 1 \<le> sample_index step (Suc j)"
    using sample_index_step [OF s j] by simp
  show ?case
  proof (cases "i = j")
    case True
    then show ?thesis using st by simp
  next
    case False
    then have "i < j" using Suc.prems(1) by simp
    then have "sample_index step i < sample_index step j" using Suc.IH j by simp
    then show ?thesis using st by linarith
  qed
qed

lemma sample_index_nonneg:
  assumes s: "10001 / 10000 * (1 - 1 / 2 ^ 53) \<le> step" and "i < 10000"
  shows "0 \<le> sample_index step i"
  using sample_index_step [OF assms] by simp

lemma sample_indices_sorted:
  assumes "1 \<le> limit" and "limit \<le> 10000" and "limit < int n"
  shows "sorted_wrt (<) (sample_indices n limit)"
proof -
  let ?step = "sample_step n limit"
  have s: "10001 / 10000 * (1 - 1 / 2 ^ 53) \<le> ?step" by (rule sample_step_lower [OF assms])
  let ?xs = "filter (\<lambda>i. sample_index ?step i < int n) [0..<nat limit]"
  have "sorted_wrt (<) ?xs" by (rule sorted_wrt_filter) simp
  moreover have "nat (sample_index ?step i) < nat (sample_index ?step j)"
    if "i \<in> set ?xs" "j \<in> set ?xs" "i < j" for i j
  proof -
    have "j < nat limit" using that(2) by simp
    then have j: "j \<le> 10000" using assms(2) by linarith
    have "sample_index ?step i < sample_index ?step j"
      by (rule sample_index_strict_mono [OF s that(3) j])
    moreover have "0 \<le> sample_index ?step i"
      using sample_index_nonneg [OF s, of i] that(3) j by simp
    ultimately show ?thesis by simp
  qed
  ultimately have "sorted_wrt (\<lambda>i j. nat (sample_index ?step i) < nat (sample_index ?step j)) ?xs"
    by (rule sorted_wrt_mono_rel [rotated])
  then show ?thesis by (simp add: sample_indices_def sorted_wrt_map)
qed

lemma sample_indices_head:
  assumes "1 \<le> limit" and "limit < int n"
  shows "sample_indices n limit \<noteq> [] \<and> hd (sample_indices n limit) = 0"
proof -
  have "[0..<nat limit] = 0 # [1..<nat limit]" using assms(1) by (simp add: upt_rec)
  moreover have "0 < int n" using assms by simp
  ultimately show ?thesis by (simp add: sample_indices_def sample_index_zero)
qed

lemma sample_indices_in_range:
  assumes "k \<in> set (sample_indices n limit)" and "0 < n"
  shows "k < n"
proof -
  obtain i where "k = nat (sample_index (sample_step n limit) i)"
    and "sample_index (sample_step n limit) i < int n"
    using assms by (auto simp: sample_indices_def)
  then show ?thesis using assms(2) by (cases "0 \<le> sample_index (sample_step n limit) i") simp_all
qed

lemma binary64_round_at:
  assumes "2 ^ e \<le> (x::rat)" and "x < 2 ^ Suc e"
  shows "binary64_round x = of_int (round_half_even (x / (2 ^ e / 2 ^ 52))) * (2 ^ e / 2 ^ 52)"
proof -
  have "(1::rat) \<le> 2 ^ e" by simp
  then have x1: "1 \<le> x" using assms(1) by (rule order_trans)
  let ?k = "ilog2 (nat \<lfloor>x\<rfloor>)"
  have b: "2 ^ ?k \<le> x \<and> x < 2 ^ Suc ?k" by (rule floor_log2_bounds [OF x1])
  have "(2::rat) ^ ?k < 2 ^ Suc e" using b assms(2) by linarith
  then have "?k < Suc e" by (simp only: power_strict_increasing_iff one_less_numeral_iff semiring_norm)
  moreover have "(2::rat) ^ e < 2 ^ Suc ?k" using b assms(1) by linarith
  then have "e < Suc ?k" by (simp only: power_strict_increasing_iff one_less_numeral_iff semiring_norm)
  ultimately have "?k = e" by simp
  then show ?thesis using binary64_round_normal [OF x1] by simp
qed

lemma floor_rat_numeral: "\<lfloor>numeral a / numeral b :: rat\<rfloor> = numeral a div numeral b"
  using floor_divide_of_int_eq [of "numeral a" "numeral b", where ?'a = rat] by simp

lemma sample_step_122_14: "sample_step 122 14 = 4905706736957147 / 562949953421312"
proof -
  have r: "binary64_round (61 / 7) = 4905706736957147 / 562949953421312"
    by (subst binary64_round_at [of 3]) (simp_all add: round_half_even_def Let_def floor_rat_numeral)
  show ?thesis by (simp add: sample_step_def r)
qed

lemma sample_index_122_14_7: "sample_index (sample_step 122 14) 7 = 60"
proof -
  have r: "binary64_round (34339947158700029 / 562949953421312) = 8584986789675007 / 140737488355328"
    by (subst binary64_round_at [of 5]) (simp_all add: round_half_even_def Let_def floor_rat_numeral)
  show ?thesis by (simp add: sample_index_def sample_step_122_14 py_trunc_def r floor_rat_numeral)
qed


lemma spec_sample_indices_122_14:
  "spec_sample_indices 122 14 = [0, 8, 17, 26, 34, 43, 52, 61, 69, 78, 87, 95, 104, 113]"
  by (simp add: spec_sample_indices_def upt_rec floor_rat_numeral)

lemma sample_indices_122_14_mem: "60 \<in> set (sample_indices 122 14)"
proof -
  have "7 \<in> set (filter (\<lambda>i. sample_index (sample_step 122 14) i < int 122) [0..<nat 14])"
    by (simp add: sample_index_122_14_7)
  then have "nat (sample_index (sample_step 122 14) 7) \<in> set (sample_indices 122 14)"
    unfolding sample_indices_def set_map by (rule imageI)
  then show ?thesis by (simp add: sample_index_122_14_7)
qed

text \<open>
  C6, as the specification states it: the sampled rows are those at
  \<open>floor(i * (len(rows) / limit))\<close>. For 122 rows and a limit of 14 the exact
  value at \<open>i = 7\<close> is 61, but \<^verbatim>\<open>122 / 14\<close> rounded to binary64 and multiplied
  by 7 is below 61, so the code returns row 60, which no exact index selects.
\<close>

theorem sampled_rows_differ_from_exact_floor:
  "spec_sample_indices 122 14 = [0, 8, 17, 26, 34, 43, 52, 61, 69, 78, 87, 95, 104, 113] \<and>
   60 \<in> set (sample_indices 122 14) \<and>
   [(''id'', JInt 60)] \<in> set (pv_data (preview_rows [] (numbered_rows 122) 14)) \<and>
   [(''id'', JInt 60)] \<notin> set (map ((!) (numbered_rows 122)) (spec_sample_indices 122 14)) \<and>
   pv_data (preview_rows [] (numbered_rows 122) 14) \<noteq>
     map ((!) (numbered_rows 122)) (spec_sample_indices 122 14)"
proof -
  have len: "length (numbered_rows 122) = 122" by (simp add: numbered_rows_def)
  have nth: "numbered_rows 122 ! k = [(''id'', JInt (int k))]" if "k < 122" for k
    using that by (simp add: numbered_rows_def)
  have "numbered_rows 122 ! 60 \<in> (\<lambda>k. numbered_rows 122 ! k) ` set (sample_indices 122 14)"
    using sample_indices_122_14_mem by (rule imageI)
  then have a: "[(''id'', JInt 60)] \<in> set (pv_data (preview_rows [] (numbered_rows 122) 14))"
    by (simp add: preview_rows_def len nth)
  have b: "[(''id'', JInt 60)] \<notin> set (map ((!) (numbered_rows 122)) (spec_sample_indices 122 14))"
    by (simp add: spec_sample_indices_122_14 nth)
  from a b have "pv_data (preview_rows [] (numbered_rows 122) 14) \<noteq>
     map ((!) (numbered_rows 122)) (spec_sample_indices 122 14)" by metis
  then show ?thesis using a b spec_sample_indices_122_14 sample_indices_122_14_mem by simp
qed

text \<open>
  C6, amended: for every row sequence and limit clamped to 1 .. 10000 with
  more rows than the limit, the preview is the rows at the indices
  \<open>int(i * step)\<close> for \<open>i\<close> from 0 up to \<open>limit\<close> that are below the number
  of rows, in that order, where \<open>step\<close> is the quotient of the number of rows
  by the limit rounded to binary64 and the product is rounded to binary64
  again. It has at most \<open>limit\<close> rows; the indices increase strictly, the
  first is 0 and the last is below the number of rows; and the preview is
  marked as sampled.
\<close>

theorem sampled_preview:
  assumes "1 \<le> limit" and "limit \<le> 10000" and "limit < int (length data)"
  shows "pv_data (preview_rows sch data limit) =
           map ((!) data) (sample_indices (length data) limit) \<and>
         sample_indices (length data) limit =
           map (\<lambda>i. nat (py_trunc (binary64_round (of_nat i *
                  binary64_round (of_nat (length data) / of_int limit)))))
             (filter (\<lambda>i. py_trunc (binary64_round (of_nat i *
                  binary64_round (of_nat (length data) / of_int limit))) < int (length data))
                [0..<nat limit]) \<and>
         int (length (pv_data (preview_rows sch data limit))) \<le> limit \<and>
         sorted_wrt (<) (sample_indices (length data) limit) \<and>
         sample_indices (length data) limit \<noteq> [] \<and>
         hd (sample_indices (length data) limit) = 0 \<and>
         last (sample_indices (length data) limit) < length data \<and>
         (\<forall>k \<in> set (sample_indices (length data) limit). k < length data) \<and>
         pv_is_sampled (preview_rows sch data limit)"
proof -
  let ?ix = "sample_indices (length data) limit"
  have pos: "0 < length data" using assms(1,3) by linarith
  have d: "pv_data (preview_rows sch data limit) = map ((!) data) ?ix"
    using assms(3) by (simp add: preview_rows_def Let_def)
  have f: "?ix =
           map (\<lambda>i. nat (py_trunc (binary64_round (of_nat i *
                  binary64_round (of_nat (length data) / of_int limit)))))
             (filter (\<lambda>i. py_trunc (binary64_round (of_nat i *
                  binary64_round (of_nat (length data) / of_int limit))) < int (length data))
                [0..<nat limit])"
    by (simp add: sample_indices_def sample_index_def sample_step_def)
  have l: "int (length (pv_data (preview_rows sch data limit))) \<le> limit"
    using length_sample_indices [of "length data" limit] assms(1) by (simp add: d)
  have s: "sorted_wrt (<) ?ix" by (rule sample_indices_sorted [OF assms])
  have h: "?ix \<noteq> [] \<and> hd ?ix = 0" by (rule sample_indices_head [OF assms(1,3)])
  have r: "\<forall>k \<in> set ?ix. k < length data" using sample_indices_in_range pos by blast
  have la: "last ?ix < length data" using h r by (simp add: last_in_set)
  have p: "pv_is_sampled (preview_rows sch data limit)"
    using assms(3) by (simp add: preview_rows_def Let_def)
  show ?thesis using d f l s h r la p by (simp only: simp_thms)
qed

lemma sample_indices_3_2: "sample_indices 3 2 = [0, 1]"
proof -
  have r: "binary64_round (3 / 2) = 3 / 2"
    by (subst binary64_round_at [of 0]) (simp_all add: round_half_even_def Let_def floor_rat_numeral)
  have s: "sample_step 3 2 = 3 / 2" by (simp add: sample_step_def r)
  have i: "sample_index (3 / 2) (Suc 0) = 1"
    by (simp add: sample_index_def r py_trunc_def floor_rat_numeral)
  show ?thesis by (simp add: sample_indices_def s upt_rec sample_index_zero i)
qed

theorem sampled_preview_witness:
  "(1::int) \<le> 2 \<and> (2::int) \<le> 10000 \<and> 2 < int (length (numbered_rows 3)) \<and>
   pv_data (preview_rows [] (numbered_rows 3) 2) = [[(''id'', JInt 0)], [(''id'', JInt 1)]] \<and>
   sorted_wrt (<) (sample_indices 3 2) \<and>
   pv_is_sampled (preview_rows [] (numbered_rows 3) 2)"
proof -
  have len: "length (numbered_rows 3) = 3" by (simp add: numbered_rows_def)
  have h: "2 < int (length (numbered_rows 3))" by (simp add: len)
  have n: "map ((!) (numbered_rows 3)) [0, 1] = [[(''id'', JInt 0)], [(''id'', JInt 1)]]"
    by (simp add: numbered_rows_def)
  have "(1::int) \<le> 2" "(2::int) \<le> 10000" by simp_all
  from sampled_preview [OF this h, of "[]"]
  have d: "pv_data (preview_rows [] (numbered_rows 3) 2) =
      map ((!) (numbered_rows 3)) (sample_indices (length (numbered_rows 3)) 2)"
    and s: "sorted_wrt (<) (sample_indices (length (numbered_rows 3)) 2)"
    and p: "pv_is_sampled (preview_rows [] (numbered_rows 3) 2)"
    by blast+
  show ?thesis using d s p h unfolding len sample_indices_3_2 n by simp
qed

section \<open>A numeric string\<close>

lemma binary64_round_31: "binary64_round 31 = 31"
  by (subst binary64_round_at [of 4]) (simp_all add: round_half_even_def Let_def floor_rat_numeral)

lemma py_float_31: "py_float ''31'' = Some (FFin 31)"
  by (simp add: py_float_def py_strip_def py_isspace_def split_sign_def py_lower_def lower_char_def
      parse_decimal_def parse_exponent_def is_digit_def nat_of_digits_def digit_val_def
      to_binary64_def binary64_round_31 Let_def)

theorem number_column_validation_witness:
  "map_of [(''age'', ''number'')] ''age'' = Some ''number'' \<and> JStr ''31'' \<noteq> JNull \<and>
   py_float ''31'' = Some (FFin 31) \<and>
   validate_cells no_text [(''age'', ''number'')] 0 [(''age'', JStr ''31'')] [] [] =
     ([(''age'', JFloat (FFin 31))], []) \<and>
   py_float ''abc'' = None \<and>
   validate_cells no_text [(''age'', ''number'')] 0 [(''age'', JStr ''abc'')] [] [] =
     ([], [InvalidValue 0 ''age'' (JStr ''abc'') ''number'']) \<and>
   validate_cells no_text [(''age'', ''number'')] 0 [(''age'', JArr [])] [] [] =
     ([], [InvalidValue 0 ''age'' (JArr []) ''number''])"
  using number_column_validation [of "[(''age'', ''number'')]" "''age''" "JStr ''31''" no_text 0 "[]" "[]"]
    number_column_validation [of "[(''age'', ''number'')]" "''age''" "JStr ''abc''" no_text 0 "[]" "[]"]
    number_column_validation [of "[(''age'', ''number'')]" "''age''" "JArr []" no_text 0 "[]" "[]"]
  by (simp add: py_float_abc py_float_31)

end
